theory Spec2Isabelle
  imports Complex_Main
begin

section \<open>Strings\<close>

text \<open>
  JavaScript strings are modelled as HOL strings. A \<^typ>\<open>char\<close> is read as
  one code unit below 256 (the Latin-1 range); text outside that range is outside the
  model. The functions below are the string primitives the two plugins call.
\<close>

text \<open>The class \<^verbatim>\<open>\s\<close> of a regular expression, which is also what
  \<^verbatim>\<open>String.prototype.trim\<close> removes: TAB, LF, VT, FF, CR, SPACE and NBSP.\<close>

definition isSpace :: "char \<Rightarrow> bool" where
  "isSpace c = (c = CHR 0x09 \<or> c = CHR 0x0A \<or> c = CHR 0x0B \<or> c = CHR 0x0C
     \<or> c = CHR 0x0D \<or> c = CHR 0x20 \<or> c = CHR 0xA0)"

text \<open>The class \<^verbatim>\<open>\w\<close>: ASCII letters, digits and the underscore.\<close>

definition isWord :: "char \<Rightarrow> bool" where
  "isWord c = (let n = (of_char c :: nat) in
     (48 \<le> n \<and> n \<le> 57) \<or> (65 \<le> n \<and> n \<le> 90) \<or> n = 95 \<or> (97 \<le> n \<and> n \<le> 122))"

text \<open>\<^verbatim>\<open>toLowerCase\<close> on one code unit: A-Z, and the Latin-1 capitals
  0xC0-0xDE without the multiplication sign 0xD7.\<close>

definition toLowerChar :: "char \<Rightarrow> char" where
  "toLowerChar c = (let n = (of_char c :: nat) in
     if (65 \<le> n \<and> n \<le> 90) \<or> (192 \<le> n \<and> n \<le> 222 \<and> n \<noteq> 215)
     then char_of (n + 32) else c)"

definition toLowerCase :: "string \<Rightarrow> string" where
  "toLowerCase s = map toLowerChar s"

definition trim :: "string \<Rightarrow> string" where
  "trim s = rev (dropWhile isSpace (rev (dropWhile isSpace s)))"

definition startsWith :: "string \<Rightarrow> string \<Rightarrow> bool" where
  "startsWith s p = (take (length p) s = p)"

text \<open>\<^verbatim>\<open>content.split(/\r?\n/)\<close>: a line ends at LF or at CR LF; a CR that no
  LF follows stays in its line. The empty string has one (empty) line.\<close>

fun splitLines :: "string \<Rightarrow> string list" where
  "splitLines [] = [[]]"
| "splitLines [c] = (if c = CHR 0x0A then [[], []] else [[c]])"
| "splitLines (c # d # cs) =
     (if c = CHR 0x0A then [] # splitLines (d # cs)
      else if c = CHR 0x0D \<and> d = CHR 0x0A then [] # splitLines cs
      else (case splitLines (d # cs) of
              [] \<Rightarrow> [[c]]
            | l # ls \<Rightarrow> (c # l) # ls))"

text \<open>\<^verbatim>\<open>lines.join("\n")\<close>.\<close>

fun joinLines :: "string list \<Rightarrow> string" where
  "joinLines [] = []"
| "joinLines [l] = l"
| "joinLines (l # m # ls) = l @ [CHR 0x0A] @ joinLines (m # ls)"

text \<open>\<^verbatim>\<open>lines.splice(i, 1)\<close>: the array without its element at index \<open>i\<close>.\<close>

definition splice1 :: "nat \<Rightarrow> 'a list \<Rightarrow> 'a list" where
  "splice1 i xs = take i xs @ drop (Suc i) xs"

text \<open>A JavaScript value used as a condition: a missing value and the empty string are
  falsy, every other string is truthy.\<close>

fun truthy :: "string option \<Rightarrow> bool" where
  "truthy None = False"
| "truthy (Some s) = (s \<noteq> [])"


text \<open>\<^verbatim>\<open>classList.add\<close> and \<^verbatim>\<open>classList.remove\<close> on a class list.\<close>

definition classAdd :: "string \<Rightarrow> string list \<Rightarrow> string list" where
  "classAdd c cs = (if c \<in> set cs then cs else cs @ [c])"

definition classRemove :: "string \<Rightarrow> string list \<Rightarrow> string list" where
  "classRemove c cs = filter (\<lambda>x. x \<noteq> c) cs"


section \<open>The framework switcher: configuration and code elements\<close>

text \<open>
  \<^verbatim>\<open>CONFIG\<close> of \<^verbatim>\<open>framework-switcher.js\<close>. The page that sets
  \<^verbatim>\<open>window.$docsify.frameworkSwitcher\<close> is not part of the sources, so the
  configuration is a parameter of every function. A configured regular expression is
  taken as its matching function: \<open>p line = Some g\<close> when \<^verbatim>\<open>line.match(p)\<close>
  succeeds with first capture group \<open>g\<close>, and \<^verbatim>\<open>p.test(line)\<close> is
  \<open>p line \<noteq> None\<close> (a pattern without the flags g and y, whose first group takes
  part in every match).
\<close>

type_synonym pattern = "string \<Rightarrow> string option"

record config =
  storageKey :: string
  frameworks :: "string list"
  defaultFramework :: string
  markerPattern :: "pattern option"
  labelPattern :: "pattern option"
  maxLinesToCheck :: nat

text \<open>The user's options, each of which may be missing, and the defaults
  \<^verbatim>\<open>CONFIG\<close> fills in (\<^verbatim>\<open>x || d\<close> takes \<open>d\<close> also for an empty
  string, an empty pattern and the number 0).\<close>

record user_config =
  u_storageKey :: "string option"
  u_frameworks :: "string list option"
  u_defaultFramework :: "string option"
  u_markerPattern :: "pattern option"
  u_labelPattern :: "pattern option"
  u_maxLinesToCheck :: "nat option"

definition make_CONFIG :: "user_config \<Rightarrow> config" where
  "make_CONFIG u = \<lparr>
     storageKey = (if truthy (u_storageKey u) then the (u_storageKey u) else ''docsify-fw''),
     frameworks = (case u_frameworks u of None \<Rightarrow> [] | Some fs \<Rightarrow> fs),
     defaultFramework = (if truthy (u_defaultFramework u) then the (u_defaultFramework u) else []),
     markerPattern = u_markerPattern u,
     labelPattern = u_labelPattern u,
     maxLinesToCheck = (case u_maxLinesToCheck u of
                          None \<Rightarrow> 5
                        | Some n \<Rightarrow> if n = 0 then 5 else n) \<rparr>"

text \<open>A \<^verbatim>\<open>code\<close> element: its text, its class list and the two entries of its
  \<^verbatim>\<open>dataset\<close> that the plugin reads and writes.\<close>

record code_element =
  textContent :: string
  classList :: "string list"
  ds_framework :: "string option"
  ds_markerStripped :: "string option"

definition normalizeFrameworkName :: "string \<Rightarrow> string" where
  "normalizeFrameworkName name = filter (\<lambda>c. \<not> isSpace c) (toLowerCase name)"

text \<open>One pattern tried on one line, as both loops of \<^verbatim>\<open>detectFramework\<close> do:
  the capture is normalised and accepted only when it is a configured framework.\<close>

definition acceptedName :: "config \<Rightarrow> pattern option \<Rightarrow> string \<Rightarrow> string option" where
  "acceptedName cfg pat line =
     (case pat of
        None \<Rightarrow> None
      | Some p \<Rightarrow>
          (case p line of
             None \<Rightarrow> None
           | Some g \<Rightarrow>
               (let fw = normalizeFrameworkName g in
                if fw \<in> set (frameworks cfg) then Some fw else None)))"

definition isCommentLine :: "string \<Rightarrow> bool" where
  "isCommentLine line = (startsWith (trim line) ''//'' \<or> startsWith (trim line) ''#''
     \<or> startsWith (trim line) ''<!--'')"

text \<open>The loop over the first lines of \<^verbatim>\<open>detectFramework\<close>, on the lines it may
  look at (\<open>take (maxLinesToCheck cfg) lines\<close>). A blank line is skipped; the marker is
  tried before the label; a line that is no comment ends the loop after it was tried.\<close>

fun scanLines :: "config \<Rightarrow> string list \<Rightarrow> string option" where
  "scanLines cfg [] = None"
| "scanLines cfg (line # rest) =
     (if trim line = [] then scanLines cfg rest
      else (case acceptedName cfg (markerPattern cfg) line of
              Some fw \<Rightarrow> Some fw
            | None \<Rightarrow>
                (case acceptedName cfg (labelPattern cfg) line of
                   Some fw \<Rightarrow> Some fw
                 | None \<Rightarrow>
                     if \<not> isCommentLine line then None else scanLines cfg rest)))"

text \<open>The element before the \<^verbatim>\<open>pre\<close> of a code element, as far as
  \<^verbatim>\<open>detectFramework\<close> reads it: tag name and text.\<close>

type_synonym prev_element = "(string \<times> string) option"

definition labelBefore :: "config \<Rightarrow> prev_element \<Rightarrow> string option" where
  "labelBefore cfg prev =
     (case prev of
        None \<Rightarrow> None
      | Some (tag, text) \<Rightarrow>
          if tag = ''P'' \<and> labelPattern cfg \<noteq> None
          then acceptedName cfg (labelPattern cfg) (trim text)
          else None)"

definition classFallback :: "config \<Rightarrow> string list \<Rightarrow> string option" where
  "classFallback cfg cls = find (\<lambda>fw. fw \<in> set cls) (frameworks cfg)"

text \<open>\<^verbatim>\<open>detectFramework\<close>: the element after the call (its dataset may have been
  written) and the returned value, \<open>None\<close> for \<^verbatim>\<open>null\<close>.\<close>

definition detectFramework ::
  "config \<Rightarrow> prev_element \<Rightarrow> code_element \<Rightarrow> code_element \<times> string option" where
  "detectFramework cfg prev e =
     (if truthy (ds_framework e) then (e, ds_framework e)
      else
        (case scanLines cfg (take (maxLinesToCheck cfg) (splitLines (textContent e))) of
           Some fw \<Rightarrow> (e\<lparr>ds_framework := Some fw\<rparr>, Some fw)
         | None \<Rightarrow>
             (case labelBefore cfg prev of
                Some fw \<Rightarrow> (e\<lparr>ds_framework := Some fw\<rparr>, Some fw)
              | None \<Rightarrow>
                  (case classFallback cfg (classList e) of
                     Some fw \<Rightarrow> (e\<lparr>ds_framework := Some fw\<rparr>, Some fw)
                   | None \<Rightarrow> (e, None)))))"

text \<open>The loop of \<^verbatim>\<open>stripMarkerLine\<close>: the index of the line to splice out, if
  any. \<open>i\<close> is the index of the head of the list.\<close>

definition testPattern :: "pattern option \<Rightarrow> string \<Rightarrow> bool" where
  "testPattern pat line = (case pat of None \<Rightarrow> False | Some p \<Rightarrow> p line \<noteq> None)"

fun findMarkerLine :: "config \<Rightarrow> nat \<Rightarrow> string list \<Rightarrow> nat option" where
  "findMarkerLine cfg i [] = None"
| "findMarkerLine cfg i (line # rest) =
     (if trim line = [] then findMarkerLine cfg (Suc i) rest
      else if testPattern (markerPattern cfg) line then Some i
      else if testPattern (labelPattern cfg) line then Some i
      else if \<not> isCommentLine line then None
      else findMarkerLine cfg (Suc i) rest)"

definition stripMarkerLine :: "config \<Rightarrow> code_element \<Rightarrow> code_element" where
  "stripMarkerLine cfg e =
     (if ds_markerStripped e = Some ''true'' then e
      else
        (let lines = splitLines (textContent e) in
         case findMarkerLine cfg 0 (take (maxLinesToCheck cfg) lines) of
           Some i \<Rightarrow> e\<lparr>textContent := joinLines (splice1 i lines),
                       ds_markerStripped := Some ''true''\<rparr>
         | None \<Rightarrow> e\<lparr>ds_markerStripped := Some ''true''\<rparr>))"

text \<open>A stand-in for a configured marker expression such as
  \<^verbatim>\<open>/^\/\/ framework: (.*)$/\<close>, and for a label expression such as
  \<^verbatim>\<open>/^\[(.*)\]$/\<close>, used where a theorem is run on a concrete page.\<close>

definition demoMarker :: pattern where
  "demoMarker line =
     (if startsWith line ''// framework: '' then Some (drop 14 line) else None)"

definition demoLabel :: pattern where
  "demoLabel line =
     (if startsWith line ''['' \<and> last line = CHR '']''
      then Some (butlast (tl line)) else None)"

definition demoConfig :: config where
  "demoConfig = \<lparr> storageKey = ''docsify-fw'',
     frameworks = [''hono'', ''express'', ''koa''],
     defaultFramework = ''hono'',
     markerPattern = Some demoMarker,
     labelPattern = Some demoLabel,
     maxLinesToCheck = 5 \<rparr>"

text \<open>Two code elements for running the theorems: one whose dataset already names a
  framework that is not configured, and one that starts with a marker comment.\<close>

definition cachedVue :: code_element where
  "cachedVue = \<lparr> textContent = ''const app = 1'', classList = [],
     ds_framework = Some ''vue'', ds_markerStripped = None \<rparr>"

definition honoBlock :: code_element where
  "honoBlock = \<lparr> textContent = ''// framework: Hono'' @ [CHR 0x0A] @ ''const app = new Hono()'',
     classList = [''lang-ts''], ds_framework = None, ds_markerStripped = None \<rparr>"

section \<open>The framework switcher: the document\<close>

text \<open>
  The rendered page as the plugin walks it: the children of the content container, in
  document order. A child is a \<^verbatim>\<open>pre\<close> with its one \<^verbatim>\<open>code\<close> child (a code
  block, as the Markdown renderer emits it), any other element with its tag name and
  text content (a paragraph has the tag name \<^verbatim>\<open>P\<close>), a node that is no element
  (text, comment), or a group the plugin made (\<^verbatim>\<open>div.fw-group\<close>) with the
  switcher, code blocks and label paragraphs that were moved into it. Every node has an
  identity, a number, which is what a JavaScript reference to it is compared by. Code
  blocks nested in other elements are outside the model.

  Of a button the model keeps \<^verbatim>\<open>dataset.framework\<close>, \<^verbatim>\<open>aria-pressed\<close> and
  \<^verbatim>\<open>style.display\<close>; its label text is left out. \<^verbatim>\<open>window.Prism\<close> is taken to
  be absent, so the calls that re-highlight code are not modelled, nor is the flag
  \<^verbatim>\<open>hasVisibilityChanges\<close> that only guards such a call.
\<close>

record button =
  b_framework :: string
  aria_pressed :: string
  display :: string

datatype leaf =
    Pre nat "string list" code_element
  | Elem nat string string
  | NonElement nat
  | Switcher nat "button list"

datatype node = Leaf leaf | Group nat "leaf list"

fun leafId :: "leaf \<Rightarrow> nat" where
  "leafId (Pre i cls e) = i"
| "leafId (Elem i tag text) = i"
| "leafId (NonElement i) = i"
| "leafId (Switcher i bs) = i"

fun nodeId :: "node \<Rightarrow> nat" where
  "nodeId (Leaf l) = leafId l"
| "nodeId (Group g ks) = g"

fun isElementLeaf :: "leaf \<Rightarrow> bool" where
  "isElementLeaf (NonElement i) = False"
| "isElementLeaf l = True"

fun isElementNode :: "node \<Rightarrow> bool" where
  "isElementNode (Leaf l) = isElementLeaf l"
| "isElementNode (Group g ks) = True"

text \<open>Tag name and text content of a node. The text of a switcher or a group is never
  read by the plugin (it reads the text of paragraphs only) and is left empty.\<close>

fun describeLeaf :: "leaf \<Rightarrow> string \<times> string" where
  "describeLeaf (Pre i cls e) = (''PRE'', textContent e)"
| "describeLeaf (Elem i tag text) = (tag, text)"
| "describeLeaf (NonElement i) = ([], [])"
| "describeLeaf (Switcher i bs) = (''DIV'', [])"

fun describeNode :: "node \<Rightarrow> string \<times> string" where
  "describeNode (Leaf l) = describeLeaf l"
| "describeNode (Group g ks) = (''DIV'', [])"

definition tagName :: "node \<Rightarrow> string" where
  "tagName n = fst (describeNode n)"

definition nodeText :: "node \<Rightarrow> string" where
  "nodeText n = snd (describeNode n)"

fun isPre :: "leaf \<Rightarrow> bool" where
  "isPre (Pre i cls e) = True"
| "isPre l = False"

fun isSwitcher :: "leaf \<Rightarrow> bool" where
  "isSwitcher (Switcher i bs) = True"
| "isSwitcher l = False"

fun isGroup :: "node \<Rightarrow> bool" where
  "isGroup (Group g ks) = True"
| "isGroup n = False"

text \<open>All leaves of the document, those inside groups included, and all identities.\<close>

fun leavesOf :: "node \<Rightarrow> leaf list" where
  "leavesOf (Leaf l) = [l]"
| "leavesOf (Group g ks) = ks"

definition allLeaves :: "node list \<Rightarrow> leaf list" where
  "allLeaves doc = concat (map leavesOf doc)"

fun idsOf :: "node \<Rightarrow> nat list" where
  "idsOf (Leaf l) = [leafId l]"
| "idsOf (Group g ks) = g # map leafId ks"

definition allIds :: "node list \<Rightarrow> nat list" where
  "allIds doc = concat (map idsOf doc)"

text \<open>\<^verbatim>\<open>document.createElement\<close> yields a node that is none of the document's.\<close>

definition freshId :: "node list \<Rightarrow> nat" where
  "freshId doc = Suc (fold max (allIds doc) 0)"

text \<open>The parent of a node: the container, or a group.\<close>

datatype parent = Root | InGroup nat

fun parentIn :: "nat \<Rightarrow> node \<Rightarrow> parent option" where
  "parentIn i (Leaf l) = (if leafId l = i then Some Root else None)"
| "parentIn i (Group g ks) =
     (if g = i then Some Root else if i \<in> leafId ` set ks then Some (InGroup g) else None)"

fun parentNode :: "node list \<Rightarrow> nat \<Rightarrow> parent option" where
  "parentNode [] i = None"
| "parentNode (n # ns) i = (case parentIn i n of Some p \<Rightarrow> Some p | None \<Rightarrow> parentNode ns i)"

fun childNodes :: "node list \<Rightarrow> parent \<Rightarrow> node list" where
  "childNodes doc Root = doc"
| "childNodes doc (InGroup g) =
     (case find (\<lambda>n. isGroup n \<and> nodeId n = g) doc of
        Some (Group g' ks) \<Rightarrow> map Leaf ks
      | _ \<Rightarrow> [])"

text \<open>The siblings before and after a node, in document order.\<close>

definition siblingsBefore :: "node list \<Rightarrow> nat \<Rightarrow> node list" where
  "siblingsBefore doc i =
     (case parentNode doc i of
        None \<Rightarrow> []
      | Some p \<Rightarrow> takeWhile (\<lambda>n. nodeId n \<noteq> i) (childNodes doc p))"

definition siblingsAfter :: "node list \<Rightarrow> nat \<Rightarrow> node list" where
  "siblingsAfter doc i =
     (case parentNode doc i of
        None \<Rightarrow> []
      | Some p \<Rightarrow> drop 1 (dropWhile (\<lambda>n. nodeId n \<noteq> i) (childNodes doc p)))"

text \<open>\<^verbatim>\<open>previousElementSibling\<close>, as tag name and text.\<close>

definition lastElementOf :: "node list \<Rightarrow> prev_element" where
  "lastElementOf ns =
     (case filter isElementNode ns of
        [] \<Rightarrow> None
      | x # xs \<Rightarrow> Some (describeNode (last (x # xs))))"

definition previousElementSibling :: "node list \<Rightarrow> nat \<Rightarrow> prev_element" where
  "previousElementSibling doc i = lastElementOf (siblingsBefore doc i)"

text \<open>Reading and writing the code element of the \<^verbatim>\<open>pre\<close> with a given identity, and
  the class list of that \<^verbatim>\<open>pre\<close>.\<close>

fun codeOf :: "nat \<Rightarrow> leaf \<Rightarrow> code_element option" where
  "codeOf i (Pre j cls e) = (if j = i then Some e else None)"
| "codeOf i l = None"

fun findBlock :: "leaf list \<Rightarrow> nat \<Rightarrow> code_element option" where
  "findBlock [] i = None"
| "findBlock (l # ls) i = (case codeOf i l of Some e \<Rightarrow> Some e | None \<Rightarrow> findBlock ls i)"

fun updateLeaf :: "nat \<Rightarrow> (code_element \<Rightarrow> code_element) \<Rightarrow> leaf \<Rightarrow> leaf" where
  "updateLeaf i f (Pre j cls e) = (if j = i then Pre j cls (f e) else Pre j cls e)"
| "updateLeaf i f l = l"

fun updateNode :: "nat \<Rightarrow> (code_element \<Rightarrow> code_element) \<Rightarrow> node \<Rightarrow> node" where
  "updateNode i f (Leaf l) = Leaf (updateLeaf i f l)"
| "updateNode i f (Group g ks) = Group g (map (updateLeaf i f) ks)"

definition updateBlock :: "nat \<Rightarrow> (code_element \<Rightarrow> code_element) \<Rightarrow> node list \<Rightarrow> node list" where
  "updateBlock i f doc = map (updateNode i f) doc"

text \<open>\<^verbatim>\<open>detectFramework\<close> and \<^verbatim>\<open>stripMarkerLine\<close> on the code block with a given
  identity, in the document.\<close>

definition detectFrameworkAt :: "config \<Rightarrow> node list \<Rightarrow> nat \<Rightarrow> node list \<times> string option" where
  "detectFrameworkAt cfg doc i =
     (case findBlock (allLeaves doc) i of
        None \<Rightarrow> (doc, None)
      | Some e \<Rightarrow>
          (let (e', r) = detectFramework cfg (previousElementSibling doc i) e
           in (updateBlock i (\<lambda>_. e') doc, r)))"

definition stripMarkerLineAt :: "config \<Rightarrow> node list \<Rightarrow> nat \<Rightarrow> node list" where
  "stripMarkerLineAt cfg doc i = updateBlock i (stripMarkerLine cfg) doc"


section \<open>The framework switcher: groups\<close>

text \<open>\<^verbatim>\<open>codeBlock.dataset.framework || detectFramework(codeBlock)\<close>.\<close>

definition frameworkOrDetect ::
  "config \<Rightarrow> prev_element \<Rightarrow> code_element \<Rightarrow> code_element \<times> string option" where
  "frameworkOrDetect cfg prev e =
     (if truthy (ds_framework e) then (e, ds_framework e) else detectFramework cfg prev e)"

text \<open>
  The loops over the code blocks of one group run over the children of the group: \<open>done\<close>
  are the children already passed, as the loop left them, \<open>rest\<close> those to come. The
  element before a code block is the last element of \<open>done\<close>.

  The first loop of \<^verbatim>\<open>updateGroupVisibility\<close>; \<open>vis\<close> is
  \<^verbatim>\<open>visibleFramework\<close>.
\<close>

fun visibilityPass ::
  "config \<Rightarrow> string \<Rightarrow> leaf list \<Rightarrow> leaf list \<Rightarrow> string option \<Rightarrow> leaf list \<times> string option" where
  "visibilityPass cfg cur done [] vis = (done, vis)"
| "visibilityPass cfg cur done (Pre i cls e # rest) vis =
     (let (e', fw) = frameworkOrDetect cfg (lastElementOf (map Leaf done)) e
      in if truthy fw
         then (if the fw \<noteq> cur
               then visibilityPass cfg cur (done @ [Pre i (classAdd ''fw-hidden'' cls) e']) rest vis
               else visibilityPass cfg cur (done @ [Pre i (classRemove ''fw-hidden'' cls) e']) rest fw)
         else visibilityPass cfg cur (done @ [Pre i cls e']) rest vis)"
| "visibilityPass cfg cur done (k # rest) vis = visibilityPass cfg cur (done @ [k]) rest vis"

text \<open>The loop of \<^verbatim>\<open>getAvailableFrameworks\<close>, and the function.\<close>

fun collectFrameworks ::
  "config \<Rightarrow> leaf list \<Rightarrow> leaf list \<Rightarrow> string set \<Rightarrow> leaf list \<times> string set" where
  "collectFrameworks cfg done [] fws = (done, fws)"
| "collectFrameworks cfg done (Pre i cls e # rest) fws =
     (let (e', fw) = frameworkOrDetect cfg (lastElementOf (map Leaf done)) e
      in collectFrameworks cfg (done @ [Pre i cls e']) rest
           (if truthy fw then insert (the fw) fws else fws))"
| "collectFrameworks cfg done (k # rest) fws = collectFrameworks cfg (done @ [k]) rest fws"

definition getAvailableFrameworks :: "config \<Rightarrow> leaf list \<Rightarrow> leaf list \<times> string list" where
  "getAvailableFrameworks cfg ks =
     (let (ks', fws) = collectFrameworks cfg [] ks {}
      in (ks', filter (\<lambda>fw. fw \<in> fws) (frameworks cfg)))"

text \<open>The second loop of \<^verbatim>\<open>updateGroupVisibility\<close>: the blocks of the first
  available framework are shown.\<close>

fun showPass :: "config \<Rightarrow> string \<Rightarrow> leaf list \<Rightarrow> leaf list \<Rightarrow> leaf list" where
  "showPass cfg firstFramework done [] = done"
| "showPass cfg firstFramework done (Pre i cls e # rest) =
     (let (e', fw) = frameworkOrDetect cfg (lastElementOf (map Leaf done)) e
      in if fw = Some firstFramework
         then showPass cfg firstFramework (done @ [Pre i (classRemove ''fw-hidden'' cls) e']) rest
         else showPass cfg firstFramework (done @ [Pre i cls e']) rest)"
| "showPass cfg firstFramework done (k # rest) = showPass cfg firstFramework (done @ [k]) rest"

text \<open>\<^verbatim>\<open>updateGroupVisibility\<close> on the children of a group; \<open>cur\<close> is
  \<^verbatim>\<open>currentFramework\<close>.\<close>

definition updateGroupVisibility :: "config \<Rightarrow> string \<Rightarrow> leaf list \<Rightarrow> leaf list" where
  "updateGroupVisibility cfg cur ks =
     (let (ks1, visibleFramework) = visibilityPass cfg cur [] ks None
      in if \<not> truthy visibleFramework \<and> filter isPre ks \<noteq> []
         then (let (ks2, availableFrameworks) = getAvailableFrameworks cfg ks1
               in if availableFrameworks \<noteq> []
                  then showPass cfg (hd availableFrameworks) [] ks2
                  else ks2)
         else ks1)"

fun onGroups :: "(leaf list \<Rightarrow> leaf list) \<Rightarrow> node \<Rightarrow> node" where
  "onGroups f (Leaf l) = Leaf l"
| "onGroups f (Group g ks) = Group g (f ks)"

definition updateAllGroups :: "config \<Rightarrow> string \<Rightarrow> node list \<Rightarrow> node list" where
  "updateAllGroups cfg cur doc = map (onGroups (updateGroupVisibility cfg cur)) doc"

text \<open>\<^verbatim>\<open>createSwitcher\<close>: one button for every available framework.\<close>

definition createSwitcher :: "string \<Rightarrow> string list \<Rightarrow> button list" where
  "createSwitcher selectedFramework availableFrameworks =
     map (\<lambda>fw. \<lparr> b_framework = fw,
                 aria_pressed = (if fw = selectedFramework then ''true'' else ''false''),
                 display = [] \<rparr>) availableFrameworks"

text \<open>\<^verbatim>\<open>updateAllSwitchers\<close>, for one group: the buttons of the first switcher of the
  group are hidden or shown and pressed or released; when the current framework is
  not available the first button of the first available one is pressed.\<close>

definition updateButton :: "string \<Rightarrow> string list \<Rightarrow> button \<Rightarrow> button" where
  "updateButton cur availableFrameworks b =
     (if b_framework b \<notin> set availableFrameworks then b\<lparr>display := ''none''\<rparr>
      else b\<lparr>display := [],
             aria_pressed := (if b_framework b = cur then ''true'' else ''false'')\<rparr>)"

fun pressFirst :: "string \<Rightarrow> button list \<Rightarrow> button list" where
  "pressFirst fw [] = []"
| "pressFirst fw (b # bs) =
     (if b_framework b = fw then b\<lparr>aria_pressed := ''true''\<rparr> # bs else b # pressFirst fw bs)"

fun onFirstSwitcher :: "(button list \<Rightarrow> button list) \<Rightarrow> leaf list \<Rightarrow> leaf list" where
  "onFirstSwitcher f [] = []"
| "onFirstSwitcher f (Switcher i bs # ks) = Switcher i (f bs) # ks"
| "onFirstSwitcher f (k # ks) = k # onFirstSwitcher f ks"

definition updateSwitcher :: "config \<Rightarrow> string \<Rightarrow> leaf list \<Rightarrow> leaf list" where
  "updateSwitcher cfg cur ks =
     (if \<not> list_ex isSwitcher ks then ks
      else
        (let (ks', availableFrameworks) = getAvailableFrameworks cfg ks
         in onFirstSwitcher
              (\<lambda>bs. let bs1 = map (updateButton cur availableFrameworks) bs
                    in if cur \<notin> set availableFrameworks \<and> availableFrameworks \<noteq> []
                       then pressFirst (hd availableFrameworks) bs1
                       else bs1)
              ks'))"

definition updateAllSwitchers :: "config \<Rightarrow> string \<Rightarrow> node list \<Rightarrow> node list" where
  "updateAllSwitchers cfg cur doc = map (onGroups (updateSwitcher cfg cur)) doc"

section \<open>The framework switcher: processing a page\<close>

text \<open>\<^verbatim>\<open>isAdjacentBlock\<close>. The loop over the siblings after the last block of the batch
  skips nodes that are no elements, empty paragraphs and label paragraphs; any other
  element ends it; running out of siblings ends it too.\<close>

fun walkSiblings :: "config \<Rightarrow> nat \<Rightarrow> node list \<Rightarrow> bool" where
  "walkSiblings cfg currentPre [] = False"
| "walkSiblings cfg currentPre (sibling # rest) =
     (if nodeId sibling = currentPre then True
      else if isElementNode sibling
      then (if tagName sibling = ''P'' \<and> trim (nodeText sibling) = []
            then walkSiblings cfg currentPre rest
            else if tagName sibling = ''P''
                    \<and> testPattern (labelPattern cfg) (trim (nodeText sibling))
            then walkSiblings cfg currentPre rest
            else False)
      else walkSiblings cfg currentPre rest)"

definition isAdjacentBlock :: "config \<Rightarrow> node list \<Rightarrow> nat list \<Rightarrow> nat \<Rightarrow> bool" where
  "isAdjacentBlock cfg doc batch codeBlock =
     (if batch = [] then False
      else if parentNode doc (last batch) \<noteq> parentNode doc codeBlock then False
      else walkSiblings cfg codeBlock (siblingsAfter doc (last batch)))"

text \<open>The loop that sets the initial visibility in a new group.\<close>

fun initialVisibility :: "config \<Rightarrow> string \<Rightarrow> leaf list \<Rightarrow> leaf list \<Rightarrow> leaf list" where
  "initialVisibility cfg selectedFramework done [] = done"
| "initialVisibility cfg selectedFramework done (Pre i cls e # rest) =
     (let (e', fw) = frameworkOrDetect cfg (lastElementOf (map Leaf done)) e
      in if truthy fw \<and> the fw \<noteq> selectedFramework
         then initialVisibility cfg selectedFramework
                (done @ [Pre i (classAdd ''fw-hidden'' cls) e']) rest
         else initialVisibility cfg selectedFramework (done @ [Pre i cls e']) rest)"
| "initialVisibility cfg selectedFramework done (k # rest) =
     initialVisibility cfg selectedFramework (done @ [k]) rest"

text \<open>Whether the loop that collects \<^verbatim>\<open>elementsToMove\<close> takes a node: a paragraph
  when it is a label, any other node when it is the \<^verbatim>\<open>pre\<close> of a block of the
  batch.\<close>

fun toMove :: "config \<Rightarrow> nat list \<Rightarrow> node \<Rightarrow> leaf option" where
  "toMove cfg batch (Leaf l) =
     (if fst (describeLeaf l) = ''P''
      then (if testPattern (labelPattern cfg) (trim (snd (describeLeaf l))) then Some l else None)
      else if isPre l \<and> leafId l \<in> set batch then Some l else None)"
| "toMove cfg batch (Group g ks) = None"

text \<open>
  \<^verbatim>\<open>createGroupFromBatch\<close>, on the document, the batch and the set of its frameworks
  (the caller empties both afterwards). The blocks of a batch are children of the
  container and stand in document order, since blocks inside groups are never
  collected. The new group takes the place before the first \<^verbatim>\<open>pre\<close>; the nodes from
  the first to the last \<^verbatim>\<open>pre\<close> of the batch are looked at, those to move go into the
  group behind the switcher, the others stay where they are.
\<close>

definition createGroupFromBatch ::
  "config \<Rightarrow> string \<Rightarrow> node list \<Rightarrow> nat list \<Rightarrow> string set \<Rightarrow> node list" where
  "createGroupFromBatch cfg cur doc batch fws =
     (if length batch < 2 then doc
      else
        (let firstPre = hd batch;
             lastPre = last batch;
             before = takeWhile (\<lambda>n. nodeId n \<noteq> firstPre) doc;
             fromFirst = dropWhile (\<lambda>n. nodeId n \<noteq> firstPre) doc;
             range = takeWhile (\<lambda>n. nodeId n \<noteq> lastPre) fromFirst
                       @ take 1 (dropWhile (\<lambda>n. nodeId n \<noteq> lastPre) fromFirst);
             after = drop 1 (dropWhile (\<lambda>n. nodeId n \<noteq> lastPre) fromFirst);
             availableFrameworks = filter (\<lambda>fw. fw \<in> fws) (frameworks cfg);
             selectedFramework =
               (if cur \<notin> set availableFrameworks \<and> availableFrameworks \<noteq> []
                then hd availableFrameworks else cur);
             group = freshId doc;
             switcher = Switcher (Suc group) (createSwitcher selectedFramework availableFrameworks);
             elementsToMove = List.map_filter (toMove cfg batch) range;
             staying = filter (\<lambda>n. toMove cfg batch n = None) range;
             children = initialVisibility cfg selectedFramework [] (switcher # elementsToMove)
         in before @ [Group group children] @ staying @ after))"

text \<open>The start of \<^verbatim>\<open>processPage\<close>: the blocks of existing groups lose their dataset
  entries; the blocks outside groups are collected.\<close>

fun clearDataset :: "leaf \<Rightarrow> leaf" where
  "clearDataset (Pre i cls e) = Pre i cls (e\<lparr>ds_framework := None, ds_markerStripped := None\<rparr>)"
| "clearDataset l = l"

definition clearGroupDatasets :: "node list \<Rightarrow> node list" where
  "clearGroupDatasets doc = map (onGroups (map clearDataset)) doc"

fun blockId :: "node \<Rightarrow> nat option" where
  "blockId (Leaf (Pre i cls e)) = Some i"
| "blockId n = None"

definition allCodeBlocks :: "node list \<Rightarrow> nat list" where
  "allCodeBlocks doc = List.map_filter blockId doc"

text \<open>The loop over \<^verbatim>\<open>allCodeBlocks\<close>, with the document, \<^verbatim>\<open>currentBatch\<close> and
  \<^verbatim>\<open>batchFrameworks\<close> as its state.\<close>

fun processBlocks ::
  "config \<Rightarrow> string \<Rightarrow> nat list \<Rightarrow> node list \<times> nat list \<times> string set
     \<Rightarrow> node list \<times> nat list \<times> string set" where
  "processBlocks cfg cur [] st = st"
| "processBlocks cfg cur (codeBlock # blocks) (doc, currentBatch, batchFrameworks) =
     (let (doc1, framework) = detectFrameworkAt cfg doc codeBlock
      in if truthy framework
         then
           (let doc2 = stripMarkerLineAt cfg doc1 codeBlock;
                isAdjacent = (currentBatch = [] \<or> isAdjacentBlock cfg doc2 currentBatch codeBlock)
            in if isAdjacent
               then processBlocks cfg cur blocks
                      (doc2, currentBatch @ [codeBlock], insert (the framework) batchFrameworks)
               else processBlocks cfg cur blocks
                      (createGroupFromBatch cfg cur doc2 currentBatch batchFrameworks,
                       [codeBlock], {the framework}))
         else processBlocks cfg cur blocks
                (createGroupFromBatch cfg cur doc1 currentBatch batchFrameworks, [], {}))"

definition processPage :: "config \<Rightarrow> string \<Rightarrow> node list \<Rightarrow> node list" where
  "processPage cfg cur doc =
     (let doc0 = clearGroupDatasets doc;
          (doc1, currentBatch, batchFrameworks) =
             processBlocks cfg cur (allCodeBlocks doc0) (doc0, [], {})
      in createGroupFromBatch cfg cur doc1 currentBatch batchFrameworks)"


section \<open>The framework switcher: the plugin and its state\<close>

text \<open>The state of the plugin: the variable \<^verbatim>\<open>currentFramework\<close>, the browser's
  local storage and the document.\<close>

record fw_state =
  currentFramework :: string
  localStorage :: "string \<rightharpoonup> string"
  document :: "node list"

text \<open>Loading the script reads the stored selection:
  \<^verbatim>\<open>localStorage.getItem(CONFIG.storageKey) || CONFIG.defaultFramework\<close>.\<close>

definition loadScript :: "config \<Rightarrow> (string \<rightharpoonup> string) \<Rightarrow> node list \<Rightarrow> fw_state" where
  "loadScript cfg storage doc =
     \<lparr> currentFramework = (if truthy (storage (storageKey cfg)) then the (storage (storageKey cfg))
                            else defaultFramework cfg),
       localStorage = storage,
       document = doc \<rparr>"

text \<open>The callback given to \<^verbatim>\<open>hook.init\<close>.\<close>

definition initHook :: "config \<Rightarrow> fw_state \<Rightarrow> fw_state" where
  "initHook cfg s =
     (if currentFramework s \<notin> set (frameworks cfg)
      then s\<lparr> currentFramework := defaultFramework cfg,
              localStorage := (localStorage s)(storageKey cfg \<mapsto> defaultFramework cfg) \<rparr>
      else s)"

definition setFramework :: "config \<Rightarrow> string \<Rightarrow> fw_state \<Rightarrow> fw_state" where
  "setFramework cfg framework s =
     (if currentFramework s = framework then s
      else s\<lparr> currentFramework := framework,
              localStorage := (localStorage s)(storageKey cfg \<mapsto> framework),
              document := updateAllSwitchers cfg framework
                            (updateAllGroups cfg framework (document s)) \<rparr>)"

text \<open>What can happen to the plugin after the script was loaded: Docsify calls the
  init hook; Docsify has rendered a page (the new content is in the document) and the
  callback given to \<^verbatim>\<open>hook.doneEach\<close> runs \<^verbatim>\<open>processPage\<close>; the user clicks the
  button of a framework.\<close>

datatype event = Init | DoneEach "node list" | Click string

fun step :: "config \<Rightarrow> fw_state \<Rightarrow> event \<Rightarrow> fw_state" where
  "step cfg s Init = initHook cfg s"
| "step cfg s (DoneEach content) =
     s\<lparr> document := processPage cfg (currentFramework s) content \<rparr>"
| "step cfg s (Click framework) = setFramework cfg framework s"

definition runPlugin :: "config \<Rightarrow> (string \<rightharpoonup> string) \<Rightarrow> event list \<Rightarrow> fw_state" where
  "runPlugin cfg storage events = foldl (step cfg) (loadScript cfg storage []) events"

section \<open>The framework switcher: what the loops over a group compute\<close>

text \<open>
  Every loop over the code blocks of a group asks each block for
  \<^verbatim>\<open>codeBlock.dataset.framework || detectFramework(codeBlock)\<close>. \<open>annotate\<close> lists the
  children of a group as such a loop leaves their datasets, each code block with the
  framework the expression yields for it (\<open>None\<close> for any other child).
  \<open>groupFrameworks\<close> are these frameworks, one for every code block of the group.
\<close>

fun annotate :: "config \<Rightarrow> leaf list \<Rightarrow> leaf list \<Rightarrow> (leaf \<times> string option) list" where
  "annotate cfg done [] = []"
| "annotate cfg done (Pre i cls e # rest) =
     (let (e', fw) = frameworkOrDetect cfg (lastElementOf (map Leaf done)) e
      in (Pre i cls e', fw) # annotate cfg (done @ [Pre i cls e']) rest)"
| "annotate cfg done (k # rest) = (k, None) # annotate cfg (done @ [k]) rest"

definition groupFrameworks :: "config \<Rightarrow> leaf list \<Rightarrow> string option list" where
  "groupFrameworks cfg ks = map snd (filter (\<lambda>(l, fw). isPre l) (annotate cfg [] ks))"

text \<open>The frameworks of a group that its code blocks were found to have, in the
  configured order.\<close>

definition availableIn :: "config \<Rightarrow> leaf list \<Rightarrow> string list" where
  "availableIn cfg ks =
     filter (\<lambda>fw. fw \<noteq> [] \<and> Some fw \<in> set (groupFrameworks cfg ks)) (frameworks cfg)"

text \<open>The framework whose blocks a group shows for a current framework: the current
  one when a block of the group has it, else the first available one.\<close>

definition shownFramework :: "config \<Rightarrow> string \<Rightarrow> leaf list \<Rightarrow> string" where
  "shownFramework cfg cur ks =
     (if cur \<noteq> [] \<and> Some cur \<in> set (groupFrameworks cfg ks) then cur
      else hd (availableIn cfg ks))"

text \<open>The code blocks of a list of children, each as class list of the \<^verbatim>\<open>pre\<close> and
  code element; a block is hidden when its \<^verbatim>\<open>pre\<close> has the class
  \<^verbatim>\<open>fw-hidden\<close>.\<close>

fun blockOf :: "leaf \<Rightarrow> (string list \<times> code_element) option" where
  "blockOf (Pre i cls e) = Some (cls, e)"
| "blockOf l = None"

definition blocksOf :: "leaf list \<Rightarrow> (string list \<times> code_element) list" where
  "blocksOf ks = List.map_filter blockOf ks"

definition hidden :: "string list \<times> code_element \<Rightarrow> bool" where
  "hidden b = (''fw-hidden'' \<in> set (fst b))"

text \<open>What the three loops do to an annotated child.\<close>

fun visLeaf :: "string \<Rightarrow> leaf \<times> string option \<Rightarrow> leaf" where
  "visLeaf cur (Pre i cls e, fw) =
     (if truthy fw
      then (if the fw \<noteq> cur then Pre i (classAdd ''fw-hidden'' cls) e
            else Pre i (classRemove ''fw-hidden'' cls) e)
      else Pre i cls e)"
| "visLeaf cur (l, fw) = l"

fun showLeaf :: "string \<Rightarrow> leaf \<times> string option \<Rightarrow> leaf" where
  "showLeaf firstFramework (Pre i cls e, fw) =
     (if fw = Some firstFramework then Pre i (classRemove ''fw-hidden'' cls) e else Pre i cls e)"
| "showLeaf firstFramework (l, fw) = l"


text \<open>Two lists of children that the detection cannot tell apart as what comes before
  a code block: the same nodes are elements and they have the same tag names and
  texts.\<close>

definition shape :: "leaf \<Rightarrow> bool \<times> string \<times> string" where
  "shape l = (isElementLeaf l, describeLeaf l)"

text \<open>Groups and a storage for running the theorems: a group with a hono and an express
  block, a group whose blocks carry a framework that is not configured, and a storage
  that holds such a framework.\<close>

definition demoGroup :: "leaf list" where
  "demoGroup =
     [Switcher 10 (createSwitcher ''hono'' [''hono'', ''express'']),
      Pre 1 [] honoBlock,
      Elem 2 ''P'' ''[Express]'',
      Pre 3 [''fw-hidden'']
        \<lparr> textContent = ''const app = express()'', classList = [],
          ds_framework = None, ds_markerStripped = None \<rparr>]"

definition vueGroup :: "leaf list" where
  "vueGroup = [Switcher 10 [], Pre 1 [] cachedVue, Pre 2 [''fw-hidden''] cachedVue]"

definition vueStorage :: "string \<rightharpoonup> string" where
  "vueStorage = Map.empty(''docsify-fw'' \<mapsto> ''vue'')"

definition expressStorage :: "string \<rightharpoonup> string" where
  "expressStorage = Map.empty(''docsify-fw'' \<mapsto> ''express'', ''theme'' \<mapsto> ''dark'')"

text \<open>What \<open>updateGroupVisibility\<close> does to one annotated child of a group with an
  available framework.\<close>

definition finalLeaf :: "config \<Rightarrow> string \<Rightarrow> leaf list \<Rightarrow> leaf \<times> string option \<Rightarrow> leaf" where
  "finalLeaf cfg cur ks x =
     (if cur \<noteq> [] \<and> Some cur \<in> set (groupFrameworks cfg ks) then visLeaf cur x
      else showLeaf (hd (availableIn cfg ks)) (visLeaf cur x, snd x))"

text \<open>What one line gives the loop of \<^verbatim>\<open>detectFramework\<close>: the accepted marker, else
  the accepted label.\<close>

definition lineHit :: "config \<Rightarrow> string \<Rightarrow> string option" where
  "lineHit cfg line =
     (case acceptedName cfg (markerPattern cfg) line of
        Some fw \<Rightarrow> Some fw
      | None \<Rightarrow> acceptedName cfg (labelPattern cfg) line)"





section \<open>The framework switcher: a page with one run of code blocks\<close>



fun leafFramework :: "leaf \<Rightarrow> string option" where
  "leafFramework (Pre i cls e) = ds_framework e"
| "leafFramework l = None"






text \<open>The frameworks that the loop adds to \<^verbatim>\<open>batchFrameworks\<close>; the children that
  \<^verbatim>\<open>createGroupFromBatch\<close> moves into the group, when all code blocks between the
  first and the last belong to the batch; and what becomes of a moved child whose
  dataset names its framework, \<open>sel\<close> being \<^verbatim>\<open>selectedFramework\<close>.\<close>

definition foundIn :: "(leaf \<times> string option) list \<Rightarrow> string set" where
  "foundIn ps = {f. \<exists>l. isPre l \<and> (l, Some f) \<in> set ps}"



text \<open>What the loop of \<^verbatim>\<open>processPage\<close> may do to a child: nothing, unless it is a
  code block, of which the code element may change.\<close>

fun sameNode :: "leaf \<Rightarrow> leaf \<Rightarrow> bool" where
  "sameNode (Pre i cls e) l' = (case l' of Pre i' cls' e' \<Rightarrow> i' = i \<and> cls' = cls | _ \<Rightarrow> False)"
| "sameNode l l' = (l' = l)"

section \<open>The framework switcher: what holds of the blocks in groups\<close>

text \<open>The children of the groups of a document and the children of the container that
  are no groups. \<open>batchInv\<close> is what the loop of \<^verbatim>\<open>processPage\<close> keeps, for the
  document, \<^verbatim>\<open>currentBatch\<close> and the code blocks that the loop has yet to visit: the
  blocks in groups have a framework in their dataset and are not visited again, and so
  have the blocks of the batch.\<close>

fun groupLeaves :: "node \<Rightarrow> leaf list" where
  "groupLeaves (Group g ks) = ks"
| "groupLeaves (Leaf l) = []"

definition groupedLeaves :: "node list \<Rightarrow> leaf list" where
  "groupedLeaves doc = concat (map groupLeaves doc)"

fun topLeaf :: "node \<Rightarrow> leaf list" where
  "topLeaf (Leaf l) = [l]"
| "topLeaf (Group g ks) = []"

definition topLeaves :: "node list \<Rightarrow> leaf list" where
  "topLeaves doc = concat (map topLeaf doc)"





text \<open>
  What the loop of \<^verbatim>\<open>processPage\<close> keeps on a page that came as a list of leaves, when
  it has passed the leaves \<open>D\<close>. The document starts with the nodes \<open>X\<close>, which end with
  the last code block that was visited, followed by the leaves \<open>T\<close> of \<open>D\<close> behind that
  block, none of which is a code block. A batch that is not empty ends with that block
  and starts with a child of the container among \<open>X\<close>, and \<^verbatim>\<open>detectFramework\<close> finds a
  framework for that block on the page as it came; with an empty batch no framework is
  collected.
\<close>

definition loopInv ::
  "config \<Rightarrow> node list \<Rightarrow> leaf list \<Rightarrow> nat list \<Rightarrow> string set \<Rightarrow> leaf list \<Rightarrow> bool" where
  "loopInv cfg X T batch fws D =
     ((\<forall>l\<in>set T. \<not> isPre l) \<and> (batch = [] \<longrightarrow> fws = {})
      \<and> ((X = [] \<and> batch = [] \<and> D = T)
         \<or> (\<exists>X1 i c e e' d1.
               X = X1 @ [Leaf (Pre i c e')] \<and> D = d1 @ Pre i c e # T
               \<and> (batch \<noteq> [] \<longrightarrow>
                    last batch = i \<and> hd batch \<in> nodeId ` set X
                    \<and> truthy (snd (detectFramework cfg (lastElementOf (map Leaf d1)) e))))))"

section \<open>The on-this-page plugin: headings, slugs and the table of contents\<close>

text \<open>
  A heading of the rendered content, as \<^verbatim>\<open>createOnThisPageSidebar\<close> and the scroll
  spy read it. The selector yields only \<^verbatim>\<open>H1\<close> to \<^verbatim>\<open>H6\<close>, so
  \<^verbatim>\<open>parseInt(heading.tagName.charAt(1))\<close> is kept as the number \<open>h_level\<close>. An
  element without an \<^verbatim>\<open>id\<close> attribute has the id \<^verbatim>\<open>""\<close>. \<open>h_top\<close> is
  \<^verbatim>\<open>getBoundingClientRect().top\<close> at the time the element is looked at.
\<close>

record heading =
  h_level :: nat
  h_text :: string
  h_id :: string
  h_top :: real

text \<open>\<^verbatim>\<open>.replace(/\s+/g, "-")\<close>: every maximal run of white space becomes one
  hyphen.\<close>

function replaceSpaceRuns :: "string \<Rightarrow> string" where
  "replaceSpaceRuns [] = []"
| "replaceSpaceRuns (c # cs) =
     (if isSpace c then CHR ''-'' # replaceSpaceRuns (dropWhile isSpace cs)
      else c # replaceSpaceRuns cs)"
  by pat_completeness auto
termination
  by (relation "measure length") (auto simp: le_imp_less_Suc length_dropWhile_le)

text \<open>\<^verbatim>\<open>.replace(/--+/g, "-")\<close>: every run of two or more hyphens becomes one.\<close>

function collapseHyphens :: "string \<Rightarrow> string" where
  "collapseHyphens [] = []"
| "collapseHyphens (c # cs) =
     (if c = CHR ''-'' \<and> startsWith cs ''-''
      then CHR ''-'' # collapseHyphens (dropWhile (\<lambda>d. d = CHR ''-'') cs)
      else c # collapseHyphens cs)"
  by pat_completeness auto
termination
  by (relation "measure length") (auto simp: le_imp_less_Suc length_dropWhile_le)

text \<open>The id generated for a heading that has none:
  \<^verbatim>\<open>text.toLowerCase().replace(/[^\w\s-]/g, "").replace(/\s+/g, "-").replace(/--+/g, "-").trim()\<close>.\<close>

definition slug :: "string \<Rightarrow> string" where
  "slug text =
     trim (collapseHyphens (replaceSpaceRuns
       (filter (\<lambda>c. isWord c \<or> isSpace c \<or> c = CHR ''-'') (toLowerCase text))))"

text \<open>\<^verbatim>\<open>s.replace("#/", "")\<close> removes the first occurrence of the two characters;
  \<^verbatim>\<open>s.split("?")[0]\<close> is the part before the first question mark.\<close>

fun removeFirstHashSlash :: "string \<Rightarrow> string" where
  "removeFirstHashSlash [] = []"
| "removeFirstHashSlash (c # cs) =
     (if startsWith (c # cs) ''#/'' then drop 2 (c # cs) else c # removeFirstHashSlash cs)"

definition beforeQuestionMark :: "string \<Rightarrow> string" where
  "beforeQuestionMark s = takeWhile (\<lambda>c. c \<noteq> CHR ''?'') s"

text \<open>The path of the permalinks: \<open>route\<close> is the plugin's \<^verbatim>\<open>currentRoute\<close>,
  \<open>hash\<close> is \<^verbatim>\<open>window.location.hash\<close>.\<close>

definition currentPath :: "string \<Rightarrow> string \<Rightarrow> string" where
  "currentPath route hash =
     (let p1 = (if startsWith route ''/'' then drop 1 route else route);
          p2 = (if p1 = [] then beforeQuestionMark (removeFirstHashSlash hash) else p1)
      in if p2 = [] then ''README'' else p2)"

text \<open>A link of the table of contents: \<^verbatim>\<open>href\<close>, text, the attribute
  \<^verbatim>\<open>data-heading-id\<close> and the class list.\<close>

record toc_link =
  l_href :: string
  l_text :: string
  l_heading_id :: string
  l_classes :: "string list"

text \<open>The list structure under the sidebar: a \<^verbatim>\<open>ul\<close> with its children, or a
  \<^verbatim>\<open>li\<close> with its link and whatever was appended to it afterwards.\<close>

datatype toc = UL "toc list" | LI toc_link "toc list"

fun kids :: "toc \<Rightarrow> toc list" where
  "kids (UL ks) = ks"
| "kids (LI a ks) = ks"

text \<open>The script keeps references to \<^verbatim>\<open>ul\<close> elements inside the list it is
  building. A reference is the path from the top-level list to the element: the child
  indices to follow. The script only ever appends, so a path stays valid.\<close>

type_synonym path = "nat list"

fun subtree :: "toc \<Rightarrow> path \<Rightarrow> toc option"
  and subtreeOf :: "toc list \<Rightarrow> nat \<Rightarrow> path \<Rightarrow> toc option" where
  "subtree t [] = Some t"
| "subtree t (i # p) = subtreeOf (kids t) i p"
| "subtreeOf [] i p = None"
| "subtreeOf (k # ks) 0 p = subtree k p"
| "subtreeOf (k # ks) (Suc i) p = subtreeOf ks i p"

text \<open>\<^verbatim>\<open>element.appendChild(new)\<close> on the element at a path.\<close>

fun appendChildAt :: "path \<Rightarrow> toc \<Rightarrow> toc \<Rightarrow> toc"
  and appendChildIn :: "nat \<Rightarrow> path \<Rightarrow> toc \<Rightarrow> toc list \<Rightarrow> toc list" where
  "appendChildAt [] new (UL ks) = UL (ks @ [new])"
| "appendChildAt [] new (LI a ks) = LI a (ks @ [new])"
| "appendChildAt (i # p) new (UL ks) = UL (appendChildIn i p new ks)"
| "appendChildAt (i # p) new (LI a ks) = LI a (appendChildIn i p new ks)"
| "appendChildIn i p new [] = []"
| "appendChildIn 0 p new (k # ks) = appendChildAt p new k # ks"
| "appendChildIn (Suc i) p new (k # ks) = k # appendChildIn i p new ks"

text \<open>The state of the loop over the headings in \<^verbatim>\<open>createOnThisPageSidebar\<close>.\<close>

record toc_state =
  nav :: toc
  currentLevel :: nat
  currentList :: path
  listStack :: "path list"

definition initialTocState :: toc_state where
  "initialTocState = \<lparr> nav = UL [], currentLevel = 0, currentList = [], listStack = [[]] \<rparr>"

text \<open>One round of the inner loop that goes deeper: a new \<^verbatim>\<open>ul\<close> is appended to
  the last child of the current list if there is one, else to the current list itself,
  pushed on the stack and made the current list.\<close>

definition pushNestedList :: "toc_state \<Rightarrow> toc_state" where
  "pushNestedList s =
     (case subtree (nav s) (currentList s) of
        None \<Rightarrow> s
      | Some cur \<Rightarrow>
          (let n = length (kids cur);
               target = (if n = 0 then currentList s else currentList s @ [n - 1]);
               nested = (if n = 0 then currentList s @ [0]
                         else currentList s @ [n - 1, length (kids (last (kids cur)))])
           in s\<lparr> nav := appendChildAt target (UL []) (nav s),
                 listStack := listStack s @ [nested],
                 currentList := nested \<rparr>))"

text \<open>The inner loop that goes back up: \<open>diff\<close> entries are popped, but never the
  last one.\<close>

fun popLists :: "nat \<Rightarrow> path list \<Rightarrow> path list" where
  "popLists 0 st = st"
| "popLists (Suc d) st = (if length st > 1 then popLists d (butlast st) else st)"

definition adjustNesting :: "nat \<Rightarrow> toc_state \<Rightarrow> toc_state" where
  "adjustNesting level s =
     (if level > currentLevel s
      then (pushNestedList ^^ (level - 1 - currentLevel s)) s
      else if level < currentLevel s
      then (let st = popLists (currentLevel s - level + 1) (listStack s)
            in s\<lparr> listStack := st, currentList := last st \<rparr>)
      else s)"

text \<open>The id a heading ends up with, and the link made for it.\<close>

definition headingId :: "heading \<Rightarrow> string" where
  "headingId h = (if h_id h = [] then slug (trim (h_text h)) else h_id h)"

definition headingLink :: "string \<Rightarrow> string \<Rightarrow> heading \<Rightarrow> toc_link" where
  "headingLink route hash h =
     \<lparr> l_href = ''#/'' @ currentPath route hash @ ''?id='' @ headingId h,
       l_text = trim (h_text h),
       l_heading_id = headingId h,
       l_classes = [] \<rparr>"

text \<open>The body of \<^verbatim>\<open>headings.forEach\<close>: the heading after the round (its id may
  have been assigned) and the state after it. A level-1 heading is skipped.\<close>

definition tocStep :: "string \<Rightarrow> string \<Rightarrow> heading \<Rightarrow> toc_state \<Rightarrow> heading \<times> toc_state" where
  "tocStep route hash h s =
     (if h_level h = 1 then (h, s)
      else
        (let h' = h\<lparr>h_id := headingId h\<rparr>;
             s1 = adjustNesting (h_level h) s;
             s2 = s1\<lparr>currentLevel := h_level h\<rparr>
         in (h', s2\<lparr>nav := appendChildAt (currentList s2) (LI (headingLink route hash h) []) (nav s2)\<rparr>)))"

fun tocLoop :: "string \<Rightarrow> string \<Rightarrow> heading list \<Rightarrow> toc_state \<Rightarrow> heading list \<times> toc_state" where
  "tocLoop route hash [] s = ([], s)"
| "tocLoop route hash (h # hs) s =
     (let (h', s') = tocStep route hash h s;
          (hs', s'') = tocLoop route hash hs s'
      in (h' # hs', s''))"

text \<open>The links of a list in document order, each with the number of \<^verbatim>\<open>ul\<close>
  elements between it and the list the function is applied to.\<close>

fun tocLinks :: "toc \<Rightarrow> toc_link list"
  and tocLinksOf :: "toc list \<Rightarrow> toc_link list" where
  "tocLinks (UL ks) = tocLinksOf ks"
| "tocLinks (LI a ks) = a # tocLinksOf ks"
| "tocLinksOf [] = []"
| "tocLinksOf (k # ks) = tocLinks k @ tocLinksOf ks"

fun linkDepths :: "nat \<Rightarrow> toc \<Rightarrow> (string \<times> nat) list"
  and linkDepthsOf :: "nat \<Rightarrow> toc list \<Rightarrow> (string \<times> nat) list" where
  "linkDepths d (UL ks) = linkDepthsOf (Suc d) ks"
| "linkDepths d (LI a ks) = (l_text a, d) # linkDepthsOf d ks"
| "linkDepthsOf d [] = []"
| "linkDepthsOf d (k # ks) = linkDepths d k @ linkDepthsOf d ks"

text \<open>The nesting depth of every link of the navigation list \<open>t\<close> below \<open>t\<close> itself: a
  \<^verbatim>\<open>li\<close> directly in \<open>t\<close> has depth 0.\<close>

definition navDepths :: "toc \<Rightarrow> (string \<times> nat) list" where
  "navDepths t = linkDepthsOf 0 (kids t)"



definition h2h3h2 :: "heading list" where
  "h2h3h2 = [\<lparr>h_level = 2, h_text = ''Install'', h_id = [], h_top = 0\<rparr>,
             \<lparr>h_level = 3, h_text = ''With npm'', h_id = [], h_top = 0\<rparr>,
             \<lparr>h_level = 2, h_text = ''Usage'', h_id = ''usage'', h_top = 0\<rparr>]"

section \<open>The on-this-page plugin: the document and the scroll spy\<close>

definition endsWith :: "string \<Rightarrow> string \<Rightarrow> bool" where
  "endsWith s suf = (length suf \<le> length s \<and> drop (length s - length suf) s = suf)"

text \<open>\<^verbatim>\<open>s.includes(sub)\<close>, as the attribute selector \<^verbatim>\<open>[href*="?id="]\<close> needs it.\<close>

fun strIncludes :: "string \<Rightarrow> string \<Rightarrow> bool" where
  "strIncludes [] sub = (sub = [])"
| "strIncludes (c # cs) sub = (startsWith (c # cs) sub \<or> strIncludes cs sub)"

text \<open>
  The left sidebar that Docsify renders (\<^verbatim>\<open>aside.sidebar\<close>) is a tree of elements
  and text nodes. An element has its tag name, class list, \<^verbatim>\<open>href\<close> attribute and
  children. The \<^verbatim>\<open>aside\<close> itself is kept as the one thing the plugin asks of it:
  its \<^verbatim>\<open>.sidebar-nav\<close> element, if it has one.
\<close>

datatype dnode = DText string | DElem string "string list" "string option" "dnode list"

record aside =
  sidebar_nav :: "dnode option"

fun dkids :: "dnode \<Rightarrow> dnode list" where
  "dkids (DText t) = []"
| "dkids (DElem tag cls href ks) = ks"

fun dtag :: "dnode \<Rightarrow> string" where
  "dtag (DText t) = []"
| "dtag (DElem tag cls href ks) = tag"

fun dclasses :: "dnode \<Rightarrow> string list" where
  "dclasses (DText t) = []"
| "dclasses (DElem tag cls href ks) = cls"

fun dhref :: "dnode \<Rightarrow> string option" where
  "dhref (DText t) = None"
| "dhref (DElem tag cls href ks) = href"

fun dtext :: "dnode \<Rightarrow> string"
  and dtextOf :: "dnode list \<Rightarrow> string" where
  "dtext (DText t) = t"
| "dtext (DElem tag cls href ks) = dtextOf ks"
| "dtextOf [] = []"
| "dtextOf (k # ks) = dtext k @ dtextOf ks"

text \<open>The descendants of a node in document order (the node itself left out).\<close>

fun descendants :: "dnode \<Rightarrow> dnode list"
  and descendantsOf :: "dnode list \<Rightarrow> dnode list" where
  "descendants (DText t) = []"
| "descendants (DElem tag cls href ks) = descendantsOf ks"
| "descendantsOf [] = []"
| "descendantsOf (k # ks) = k # descendants k @ descendantsOf ks"

definition hasDescendant :: "string \<Rightarrow> dnode \<Rightarrow> bool" where
  "hasDescendant tag n = list_ex (\<lambda>d. dtag d = tag) (descendants n)"

text \<open>\<^verbatim>\<open>sidebarNav.querySelector("li.active > a")\<close>: the first \<^verbatim>\<open>a\<close> in document
  order whose parent is a \<^verbatim>\<open>li\<close> of class \<^verbatim>\<open>active\<close>.\<close>

fun activeLinkOf :: "bool \<Rightarrow> dnode list \<Rightarrow> dnode option"
  and activeLink :: "dnode \<Rightarrow> dnode option" where
  "activeLinkOf par [] = None"
| "activeLinkOf par (k # ks) =
     (if par \<and> dtag k = ''A'' then Some k
      else (case activeLink k of
              Some a \<Rightarrow> Some a
            | None \<Rightarrow> activeLinkOf par ks))"
| "activeLink (DText t) = None"
| "activeLink (DElem tag cls href ks) = activeLinkOf (tag = ''LI'' \<and> ''active'' \<in> set cls) ks"

text \<open>The links Docsify generates for headings:
  \<^verbatim>\<open>a[href*="?id="]\<close>. The first loop of \<^verbatim>\<open>removeNestedFromLeftSidebar\<close>
  removes the parent of every such link, so what is left is the tree without the
  elements that have such a link as a child.\<close>

definition isIdLink :: "dnode \<Rightarrow> bool" where
  "isIdLink k = (dtag k = ''A'' \<and> (case dhref k of None \<Rightarrow> False | Some h \<Rightarrow> strIncludes h ''?id=''))"

definition hasIdLinkChild :: "dnode \<Rightarrow> bool" where
  "hasIdLinkChild n = list_ex isIdLink (dkids n)"

text \<open>Removing, below a node, every element that a test selects. The test is put to
  an element before anything inside it is removed, as each \<^verbatim>\<open>forEach\<close> of the
  script reaches an element before the elements inside it.\<close>

fun prune :: "(dnode \<Rightarrow> bool) \<Rightarrow> dnode \<Rightarrow> dnode"
  and pruneOf :: "(dnode \<Rightarrow> bool) \<Rightarrow> dnode list \<Rightarrow> dnode list" where
  "prune rm (DText t) = DText t"
| "prune rm (DElem tag cls href ks) = DElem tag cls href (pruneOf rm ks)"
| "pruneOf rm [] = []"
| "pruneOf rm (k # ks) = (if rm k then pruneOf rm ks else prune rm k # pruneOf rm ks)"

text \<open>A \<^verbatim>\<open>ul\<close> goes when none of the \<^verbatim>\<open>li\<close> below it has a link or text; a
  \<^verbatim>\<open>li\<close> goes when it has no link, no list and no text.\<close>

definition emptyUl :: "dnode \<Rightarrow> bool" where
  "emptyUl n = (dtag n = ''UL'' \<and>
     \<not> list_ex (\<lambda>li. hasDescendant ''A'' li \<or> trim (dtext li) \<noteq> [])
         (filter (\<lambda>d. dtag d = ''LI'') (descendants n)))"

definition emptyLi :: "dnode \<Rightarrow> bool" where
  "emptyLi n = (dtag n = ''LI'' \<and> \<not> hasDescendant ''A'' n \<and> \<not> hasDescendant ''UL'' n
     \<and> trim (dtext n) = [])"

text \<open>\<^verbatim>\<open>li.classList.add("active")\<close> on the parent of the first element in document
  order that a test selects; the flag tells whether there was one.\<close>

fun dAddClass :: "string \<Rightarrow> dnode \<Rightarrow> dnode" where
  "dAddClass c (DText t) = DText t"
| "dAddClass c (DElem tag cls href ks) = DElem tag (classAdd c cls) href ks"

fun markIn :: "(dnode \<Rightarrow> bool) \<Rightarrow> dnode list \<Rightarrow> dnode list \<times> bool \<times> bool"
  and markParent :: "(dnode \<Rightarrow> bool) \<Rightarrow> dnode \<Rightarrow> dnode \<times> bool" where
  "markIn sel [] = ([], False, False)"
| "markIn sel (k # ks) =
     (if sel k then (k # ks, True, True)
      else (case markParent sel k of
              (k', True) \<Rightarrow> (k' # ks, True, False)
            | (k', False) \<Rightarrow>
                (case markIn sel ks of (ks', found, here) \<Rightarrow> (k' # ks', found, here))))"
| "markParent sel (DText t) = (DText t, False)"
| "markParent sel (DElem tag cls href ks) =
     (case markIn sel ks of
        (ks', found, here) \<Rightarrow>
          (if here then DElem tag (classAdd ''active'' cls) href ks' else DElem tag cls href ks',
           found))"

text \<open>The body of \<^verbatim>\<open>removeNestedFromLeftSidebar\<close> once the navigation element was
  found. The result is \<open>None\<close> when the element itself was the parent of a heading link
  and so was removed from the document.\<close>

definition cleanSidebarNav :: "dnode \<Rightarrow> dnode option" where
  "cleanSidebarNav sidebarNav =
     (let currentActiveLink = activeLink sidebarNav;
          activeHref = (case currentActiveLink of None \<Rightarrow> None | Some a \<Rightarrow> dhref a);
          activeText = (case currentActiveLink of None \<Rightarrow> None | Some a \<Rightarrow> Some (trim (dtext a)));
          n1 = prune hasIdLinkChild sidebarNav;
          n2 = prune emptyUl n1;
          n3 = prune emptyLi n2;
          n4 = (if truthy activeHref \<and> truthy activeText
                then (case markParent (\<lambda>k. dtag k = ''A'' \<and> dhref k = activeHref) n3 of
                        (n, True) \<Rightarrow> n
                      | (n, False) \<Rightarrow>
                          fst (markParent (\<lambda>k. dtag k = ''A'' \<and> Some (trim (dtext k)) = activeText) n3))
                else n3)
      in if hasIdLinkChild sidebarNav then None else Some n4)"

text \<open>The sidebar the plugin builds (\<^verbatim>\<open>div.on-this-page\<close>): the identity of the
  element, the navigation list and the address of the link to the Markdown source.\<close>

record sidebar =
  sb_id :: nat
  sb_nav :: toc
  sb_markdown :: string

text \<open>\<^verbatim>\<open>window.location\<close>: the path of the address before the hash, and the hash.\<close>

record location =
  loc_pathname :: string
  loc_hash :: string

text \<open>
  What the closure of \<^verbatim>\<open>setupScrollSpy\<close> holds. \<^verbatim>\<open>links\<close> are the links of the
  sidebar that was in the document when the handler was set up, so the closure is kept
  as the identity of that sidebar. \<^verbatim>\<open>headings\<close> are elements of the content that
  was in the document then: the identity of that content, their positions in it, and
  the elements as they were, which is what is left of them once Docsify has rendered
  another content (a detached element keeps its id and has a bounding rectangle of
  zeros).
\<close>

record spy =
  spy_sidebar :: nat
  spy_content :: nat
  spy_resolved :: "nat list"
  spy_snapshot :: "heading list"

datatype error = SyntaxError

text \<open>
  The document as the plugin sees it: the headings of \<^verbatim>\<open>.content\<close> in document
  order and the identity of the content they belong to (Docsify makes new elements
  whenever it renders a page), the plugin's own sidebar if it is in the body, Docsify's
  left sidebar if there is one, the scroll handlers registered on the window, each as
  what its closure holds, the number of callbacks that
  \<^verbatim>\<open>updateLeftSidebarActiveState\<close> has handed to \<^verbatim>\<open>setTimeout\<close>, the exceptions that
  have left a callback of the plugin, and the identity that the next element created
  will have. An element is looked up by id among the headings: no other element of the
  document carries the id of a heading.
\<close>

record page =
  headings :: "heading list"
  content_id :: nat
  on_this_page :: "sidebar option"
  left_sidebar :: "aside option"
  scroll_listeners :: "spy list"
  pending_timers :: nat
  uncaught :: "error list"
  next_node :: nat

definition removeNestedFromLeftSidebar :: "page \<Rightarrow> page" where
  "removeNestedFromLeftSidebar pg =
     (case left_sidebar pg of
        None \<Rightarrow> pg
      | Some leftSidebar \<Rightarrow>
          (case sidebar_nav leftSidebar of
             None \<Rightarrow> pg
           | Some sidebarNav \<Rightarrow>
               pg\<lparr>left_sidebar := Some (leftSidebar\<lparr>sidebar_nav := cleanSidebarNav sidebarNav\<rparr>)\<rparr>))"

text \<open>\<^verbatim>\<open>updateLeftSidebarActiveState\<close> only hands a callback to
  \<^verbatim>\<open>setTimeout\<close>; \<open>leftSidebarActiveCallback\<close> is what the callback does when it
  runs, with \<open>hash\<close> the \<^verbatim>\<open>window.location.hash\<close> of that moment.\<close>

definition updateLeftSidebarActiveState :: "page \<Rightarrow> page" where
  "updateLeftSidebarActiveState pg = pg\<lparr>pending_timers := Suc (pending_timers pg)\<rparr>"

definition leftSidebarActiveCallback :: "string \<Rightarrow> page \<Rightarrow> page" where
  "leftSidebarActiveCallback hash pg =
     (case left_sidebar pg of
        None \<Rightarrow> pg
      | Some leftSidebar \<Rightarrow>
          (case sidebar_nav leftSidebar of
             None \<Rightarrow> pg
           | Some sidebarNav \<Rightarrow>
               if list_ex (\<lambda>d. dtag d = ''LI'' \<and> ''active'' \<in> set (dclasses d)) (descendants sidebarNav)
               then pg
               else
                 (let n = (case markParent (\<lambda>k. dtag k = ''A'' \<and> dhref k = Some hash) sidebarNav of
                             (n, True) \<Rightarrow> n
                           | (n, False) \<Rightarrow>
                               fst (markParent (\<lambda>k. dtag k = ''A''
                                      \<and> dhref k = Some (remove1 (CHR ''#'') hash)) sidebarNav))
                  in pg\<lparr>left_sidebar := Some (leftSidebar\<lparr>sidebar_nav := Some n\<rparr>)\<rparr>)))"

text \<open>\<^verbatim>\<open>createViewAsMarkdownLink\<close>, as the address it gives its link.\<close>

definition viewAsMarkdownHref :: "string \<Rightarrow> location \<Rightarrow> string" where
  "viewAsMarkdownHref route loc =
     (let pathPrefix = (if endsWith (loc_pathname loc) ''/'' then loc_pathname loc
                        else loc_pathname loc @ ''/'');
          p1 = (if startsWith route ''/'' then drop 1 route else route);
          p2 = (if p1 = [] \<or> p1 = ''README'' then ''README.md''
                else if \<not> endsWith p1 ''.md'' then p1 @ ''.md'' else p1)
      in pathPrefix @ p2)"

text \<open>\<^verbatim>\<open>document.getElementById(id)\<close>: the position of the first heading with that
  id; the empty id finds nothing.\<close>

fun findIndex :: "('a \<Rightarrow> bool) \<Rightarrow> 'a list \<Rightarrow> nat option" where
  "findIndex P [] = None"
| "findIndex P (x # xs) = (if P x then Some 0 else map_option Suc (findIndex P xs))"

definition getElementById :: "heading list \<Rightarrow> string \<Rightarrow> nat option" where
  "getElementById hs i = (if i = [] then None else findIndex (\<lambda>h. h_id h = i) hs)"

text \<open>Changing every link of a list, and changing the link at a position, the links
  being counted in document order.\<close>

fun mapLinks :: "(toc_link \<Rightarrow> toc_link) \<Rightarrow> toc \<Rightarrow> toc"
  and mapLinksOf :: "(toc_link \<Rightarrow> toc_link) \<Rightarrow> toc list \<Rightarrow> toc list" where
  "mapLinks f (UL ks) = UL (mapLinksOf f ks)"
| "mapLinks f (LI a ks) = LI (f a) (mapLinksOf f ks)"
| "mapLinksOf f [] = []"
| "mapLinksOf f (k # ks) = mapLinks f k # mapLinksOf f ks"

fun updLink :: "nat \<Rightarrow> (toc_link \<Rightarrow> toc_link) \<Rightarrow> toc \<Rightarrow> toc"
  and updLinkIn :: "nat \<Rightarrow> (toc_link \<Rightarrow> toc_link) \<Rightarrow> toc list \<Rightarrow> toc list" where
  "updLink n f (UL ks) = UL (updLinkIn n f ks)"
| "updLink n f (LI a ks) = (case n of 0 \<Rightarrow> LI (f a) ks | Suc m \<Rightarrow> LI a (updLinkIn m f ks))"
| "updLinkIn n f [] = []"
| "updLinkIn n f (k # ks) =
     (if n < length (tocLinks k) then updLink n f k # ks
      else k # updLinkIn (n - length (tocLinks k)) f ks)"

text \<open>
  \<^verbatim>\<open>document.querySelector\<close> is the browser's. The script hands it the text
  \<^verbatim>\<open>.on-this-page a[data-heading-id="ID"]\<close> with the id of a heading spliced in
  unescaped, so what the text selects is up to the selector engine: it may refuse the
  text (\<^verbatim>\<open>SyntaxError\<close>), find nothing, find a link of the table of contents (given
  by its position in document order) or find some other element. The engine is a
  parameter of the model; it is given the text and the \<^verbatim>\<open>data-heading-id\<close> values of
  the links of the sidebar in the document. \<open>firstWithId\<close> is what an engine finds that
  reads the text as asking for the links with exactly that id.
\<close>

datatype selected = Refused | Nothing | Link nat | Elsewhere

type_synonym selector_engine = "string \<Rightarrow> string list \<Rightarrow> selected"

definition headingSelector :: "string \<Rightarrow> string" where
  "headingSelector i = ''.on-this-page a[data-heading-id='' @ [CHR 0x22] @ i @ [CHR 0x22] @ '']''"

definition firstWithId :: "string \<Rightarrow> string list \<Rightarrow> selected" where
  "firstWithId i ids = (case findIndex (\<lambda>v. v = i) ids of None \<Rightarrow> Nothing | Some n \<Rightarrow> Link n)"

text \<open>The heading \<^verbatim>\<open>updateActiveLink\<close> takes as the current one: the loop runs from
  the last heading down and stops at the first whose top is at most 100; without one,
  the first heading is taken. \<open>hs\<close> are the elements the closure holds.\<close>

definition activeHeading :: "heading list \<Rightarrow> heading option" where
  "activeHeading hs =
     (case find (\<lambda>h. h_top h \<le> 100) (rev hs) of
        Some h \<Rightarrow> Some h
      | None \<Rightarrow> (case hs of [] \<Rightarrow> None | h # _ \<Rightarrow> Some h))"

text \<open>The elements a closure holds, as they read when the handler runs.\<close>

definition heldHeadings :: "spy \<Rightarrow> page \<Rightarrow> heading list" where
  "heldHeadings c pg =
     (if spy_content c = content_id pg then map (\<lambda>i. headings pg ! i) (spy_resolved c)
      else map (\<lambda>h. h\<lparr>h_top := 0\<rparr>) (spy_snapshot c))"

definition sidebarLinks :: "page \<Rightarrow> toc_link list" where
  "sidebarLinks pg = (case on_this_page pg of None \<Rightarrow> [] | Some sb \<Rightarrow> tocLinks (sb_nav sb))"

definition onSidebarNav :: "(toc \<Rightarrow> toc) \<Rightarrow> page \<Rightarrow> page" where
  "onSidebarNav f pg =
     (case on_this_page pg of
        None \<Rightarrow> pg
      | Some sb \<Rightarrow> pg\<lparr>on_this_page := Some (sb\<lparr>sb_nav := f (sb_nav sb)\<rparr>)\<rparr>)"

text \<open>
  \<^verbatim>\<open>updateActiveLink\<close>, run by the handler with closure \<open>c\<close>. The links of the closure
  lose the class \<^verbatim>\<open>active\<close>; they are in the document only if the sidebar of the
  closure still is. The link that gets the class is looked up in the document. When the
  selector is refused the exception leaves the function: no link is marked and
  \<^verbatim>\<open>updateLeftSidebarActiveState\<close> is not reached. A class added to an element that is
  no link of the table of contents is outside the model.
\<close>

definition updateActiveLink :: "selector_engine \<Rightarrow> spy \<Rightarrow> page \<Rightarrow> page" where
  "updateActiveLink qs c pg =
     (let p1 = (case on_this_page pg of
                  None \<Rightarrow> pg
                | Some sb \<Rightarrow>
                    if sb_id sb = spy_sidebar c
                    then onSidebarNav
                           (mapLinks (\<lambda>l. l\<lparr>l_classes := classRemove ''active'' (l_classes l)\<rparr>)) pg
                    else pg)
      in case activeHeading (heldHeadings c pg) of
           None \<Rightarrow> updateLeftSidebarActiveState p1
         | Some h \<Rightarrow>
             (case qs (headingSelector (h_id h)) (map l_heading_id (sidebarLinks p1)) of
                Refused \<Rightarrow> p1\<lparr>uncaught := uncaught p1 @ [SyntaxError]\<rparr>
              | Nothing \<Rightarrow> updateLeftSidebarActiveState p1
              | Elsewhere \<Rightarrow> updateLeftSidebarActiveState p1
              | Link n \<Rightarrow>
                  updateLeftSidebarActiveState
                    (onSidebarNav
                       (updLink n (\<lambda>l. l\<lparr>l_classes := classAdd ''active'' (l_classes l)\<rparr>)) p1)))"

text \<open>\<^verbatim>\<open>setupScrollSpy\<close>: the links of the sidebar are resolved to headings; without
  any, nothing happens; else the scroll handler is registered and the first update
  runs. \<open>spyOf\<close> is the closure made on a page.\<close>

definition resolveHeadings :: "page \<Rightarrow> nat list" where
  "resolveHeadings pg =
     List.map_filter (\<lambda>l. getElementById (headings pg) (l_heading_id l)) (sidebarLinks pg)"

definition spyOf :: "page \<Rightarrow> spy" where
  "spyOf pg =
     \<lparr> spy_sidebar = (case on_this_page pg of None \<Rightarrow> 0 | Some sb \<Rightarrow> sb_id sb),
       spy_content = content_id pg,
       spy_resolved = resolveHeadings pg,
       spy_snapshot = map (\<lambda>i. headings pg ! i) (resolveHeadings pg) \<rparr>"

definition setupScrollSpy :: "selector_engine \<Rightarrow> page \<Rightarrow> page" where
  "setupScrollSpy qs pg =
     (if resolveHeadings pg = [] then pg
      else updateActiveLink qs (spyOf pg)
             (pg\<lparr>scroll_listeners := scroll_listeners pg @ [spyOf pg]\<rparr>))"

text \<open>\<^verbatim>\<open>createOnThisPageSidebar\<close>. \<open>route\<close> is \<^verbatim>\<open>currentRoute\<close>.\<close>

definition createOnThisPageSidebar :: "selector_engine \<Rightarrow> string \<Rightarrow> location \<Rightarrow> page \<Rightarrow> page" where
  "createOnThisPageSidebar qs route loc pg =
     (let p0 = pg\<lparr>on_this_page := None\<rparr>
      in if headings p0 = [] then p0
         else
           (let p1 = removeNestedFromLeftSidebar p0;
                p2 = updateLeftSidebarActiveState p1;
                (hs', s) = tocLoop route (loc_hash loc) (headings p2) initialTocState;
                sb = \<lparr> sb_id = next_node p2, sb_nav = nav s,
                       sb_markdown = viewAsMarkdownHref route loc \<rparr>;
                p3 = p2\<lparr>headings := hs', on_this_page := Some sb, next_node := Suc (next_node p2)\<rparr>
            in setupScrollSpy qs p3))"







text \<open>
  A stand-in for the selector engine of a browser: the text that the script builds from
  an id without double quote, backslash, line break or NUL is read as asking for the links
  with that id; every other text is refused.
\<close>

definition selectorId :: "string \<Rightarrow> string option" where
  "selectorId s =
     (let pre = ''.on-this-page a[data-heading-id='' @ [CHR 0x22]; suf = [CHR 0x22] @ '']''
      in if length pre + length suf \<le> length s \<and> startsWith s pre \<and> endsWith s suf
         then Some (take (length s - length pre - length suf) (drop (length pre) s))
         else None)"

definition cssPlain :: "string \<Rightarrow> bool" where
  "cssPlain v = list_all (\<lambda>c. c \<notin> set [CHR 0x22, CHR 0x5C, CHR 0x0A, CHR 0x0D, CHR 0x0C, CHR 0x00]) v"

definition demoEngine :: selector_engine where
  "demoEngine s ids =
     (case selectorId s of
        None \<Rightarrow> Refused
      | Some v \<Rightarrow> if cssPlain v then firstWithId v ids else Refused)"



definition usageLocation :: location where
  "usageLocation = \<lparr> loc_pathname = ''/docs/'', loc_hash = ''#/node/usage'' \<rparr>"

definition stalePage :: page where
  "stalePage = \<lparr> headings = [], content_id = 1,
     on_this_page = Some \<lparr> sb_id = 0, sb_nav = UL [], sb_markdown = ''/docs/README.md'' \<rparr>,
     left_sidebar = None, scroll_listeners = [], pending_timers = 0, uncaught = [],
     next_node = 2 \<rparr>"

definition noNavPage :: page where
  "noNavPage = \<lparr> headings = [], content_id = 0, on_this_page = None,
     left_sidebar = Some \<lparr> sidebar_nav = None \<rparr>, scroll_listeners = [], pending_timers = 0,
     uncaught = [], next_node = 1 \<rparr>"













section \<open>Properties of the framework detection\<close>


lemma acceptedName_member: "acceptedName cfg pat line = Some fw \<Longrightarrow> fw \<in> set (frameworks cfg)"
  by (auto simp: acceptedName_def Let_def split: option.splits if_splits)

lemma scanLines_member: "scanLines cfg ls = Some fw \<Longrightarrow> fw \<in> set (frameworks cfg)"
  by (induction ls) (auto split: if_splits option.splits dest: acceptedName_member)

lemma labelBefore_member: "labelBefore cfg prev = Some fw \<Longrightarrow> fw \<in> set (frameworks cfg)"
  by (auto simp: labelBefore_def split: option.splits if_splits prod.splits dest: acceptedName_member)

lemma classFallback_member: "classFallback cfg cls = Some fw \<Longrightarrow> fw \<in> set (frameworks cfg)"
  by (auto simp: classFallback_def find_Some_iff)

lemma detectFramework_cached:
  "truthy (ds_framework e) \<Longrightarrow> detectFramework cfg prev e = (e, ds_framework e)"
  by (simp add: detectFramework_def)

lemma detectFramework_fresh_member:
  "\<not> truthy (ds_framework e) \<Longrightarrow> snd (detectFramework cfg prev e) = Some fw \<Longrightarrow> fw \<in> set (frameworks cfg)"
  by (auto simp: detectFramework_def split: option.splits
      dest: scanLines_member labelBefore_member classFallback_member)

lemma detectFramework_result_cached:
  "detectFramework cfg prev e = (e', Some fw) \<Longrightarrow> ds_framework e' = Some fw"
  by (auto simp: detectFramework_def split: option.splits if_splits)

lemma detectFramework_None_same:
  "detectFramework cfg prev e = (e', None) \<Longrightarrow> e' = e"
  by (auto simp: detectFramework_def split: option.splits if_splits)

text \<open>
  Claim C9, as stated, fails: \<^verbatim>\<open>detectFramework\<close> returns whatever non-empty
  string it finds in \<^verbatim>\<open>dataset.framework\<close> without looking it up in
  \<^verbatim>\<open>CONFIG.frameworks\<close>. An element that carries
  \<^verbatim>\<open>data-framework="vue"\<close> yields \<^verbatim>\<open>"vue"\<close> although only hono,
  express and koa are configured.
\<close>

theorem C9_counterexample:
  "\<not> (case snd (detectFramework demoConfig None cachedVue) of
         None \<Rightarrow> True
       | Some fw \<Rightarrow> fw \<in> set (frameworks demoConfig))"
  by (simp add: detectFramework_def cachedVue_def demoConfig_def)

text \<open>
  Claim C9, amended: on an element whose \<^verbatim>\<open>dataset.framework\<close> is unset, empty
  or a configured framework, \<^verbatim>\<open>detectFramework\<close> returns \<^verbatim>\<open>null\<close> or a
  member of \<^verbatim>\<open>CONFIG.frameworks\<close>; a non-null result is stored in
  \<^verbatim>\<open>dataset.framework\<close>; and when the result is a non-empty string, every later
  call on the element returns it again, whatever the text content and the preceding
  element have become.
\<close>

theorem detectFramework_member_and_cache:
  assumes ok: "truthy (ds_framework e) \<longrightarrow> the (ds_framework e) \<in> set (frameworks cfg)"
    and run: "detectFramework cfg prev e = (e', r)"
  shows "(r = None \<or> (\<exists>fw. r = Some fw \<and> fw \<in> set (frameworks cfg)))
    \<and> (r \<noteq> None \<longrightarrow> ds_framework e' = r)
    \<and> (truthy r \<longrightarrow>
           (\<forall>prev' content. detectFramework cfg prev' (e'\<lparr>textContent := content\<rparr>)
                           = (e'\<lparr>textContent := content\<rparr>, r)))"
proof (intro conjI)
  show "r = None \<or> (\<exists>fw. r = Some fw \<and> fw \<in> set (frameworks cfg))"
  proof (cases r)
    case None
    then show ?thesis by simp
  next
    case (Some fw)
    show ?thesis
    proof (cases "truthy (ds_framework e)")
      case True
      with run Some ok show ?thesis by (auto simp: detectFramework_cached)
    next
      case False
      with run Some detectFramework_fresh_member[of e cfg prev fw] show ?thesis by simp
    qed
  qed
  show c: "r \<noteq> None \<longrightarrow> ds_framework e' = r"
    using run detectFramework_result_cached by fastforce
  show "truthy r \<longrightarrow>
           (\<forall>prev' content. detectFramework cfg prev' (e'\<lparr>textContent := content\<rparr>)
                           = (e'\<lparr>textContent := content\<rparr>, r))"
  proof (intro impI allI)
    fix prev' content
    assume t: "truthy r"
    then have "r \<noteq> None" by (cases r) auto
    with c have "ds_framework e' = r" by simp
    with t show "detectFramework cfg prev' (e'\<lparr>textContent := content\<rparr>) = (e'\<lparr>textContent := content\<rparr>, r)"
      by (simp add: detectFramework_def)
  qed
qed

lemma honoBlock_detect:
  "detectFramework demoConfig None honoBlock = (honoBlock\<lparr>ds_framework := Some ''hono''\<rparr>, Some ''hono'')"
  by code_simp

theorem detectFramework_member_and_cache_witness:
  "ds_framework honoBlock = None
   \<and> detectFramework demoConfig None honoBlock
       = (honoBlock\<lparr>ds_framework := Some ''hono''\<rparr>, Some ''hono'')
   \<and> ''hono'' \<in> set (frameworks demoConfig)
   \<and> ds_framework (honoBlock\<lparr>ds_framework := Some ''hono''\<rparr>) = Some ''hono''
   \<and> truthy (Some ''hono'')
   \<and> detectFramework demoConfig None (honoBlock\<lparr>ds_framework := Some ''hono'', textContent := ''// framework: koa''\<rparr>)
       = (honoBlock\<lparr>ds_framework := Some ''hono'', textContent := ''// framework: koa''\<rparr>, Some ''hono'')"
proof -
  have h1: "truthy (ds_framework honoBlock) \<longrightarrow> the (ds_framework honoBlock) \<in> set (frameworks demoConfig)"
    by (simp add: honoBlock_def)
  have h2: "detectFramework demoConfig None honoBlock
       = (honoBlock\<lparr>ds_framework := Some ''hono''\<rparr>, Some ''hono'')"
    by (rule honoBlock_detect)
  have h0: "ds_framework honoBlock = None"
    by (simp add: honoBlock_def)
  from detectFramework_member_and_cache[OF h1 h2] h0 h2 show ?thesis
    by (simp add: demoConfig_def)
qed





section \<open>Properties of the visibility of a group\<close>

lemma isElementNode_Leaf: "isElementNode (Leaf l) = isElementLeaf l" by simp

lemma lastElementOf_Nil [simp]: "lastElementOf [] = None"
  by (simp add: lastElementOf_def)

lemma lastElementOf_snoc:
  "lastElementOf (ns @ [n]) = (if isElementNode n then Some (describeNode n) else lastElementOf ns)"
  by (cases "filter isElementNode ns") (simp_all add: lastElementOf_def)

lemma lastElementOf_shape:
  "map shape ds = map shape ds' \<Longrightarrow> lastElementOf (map Leaf ds) = lastElementOf (map Leaf ds')"
proof (induction ds arbitrary: ds' rule: rev_induct)
  case Nil
  then show ?case by simp
next
  case (snoc x xs)
  from snoc.prems have "ds' \<noteq> []" by auto
  then obtain ys y where ds': "ds' = ys @ [y]" by (cases ds' rule: rev_cases) auto
  with snoc.prems have m: "map shape xs = map shape ys" and sh: "shape x = shape y" by simp_all
  from snoc.IH[OF m] have ih: "lastElementOf (map Leaf xs) = lastElementOf (map Leaf ys)" .
  from sh have "isElementLeaf x = isElementLeaf y" "describeLeaf x = describeLeaf y"
    by (simp_all add: shape_def)
  with ih ds' show ?case by (simp add: lastElementOf_snoc)
qed

lemma annotate_shape:
  "map shape ds = map shape ds' \<Longrightarrow> annotate cfg ds rest = annotate cfg ds' rest"
proof (induction rest arbitrary: ds ds')
  case Nil
  then show ?case by simp
next
  case (Cons k rest)
  from Cons.prems have le: "lastElementOf (map Leaf ds) = lastElementOf (map Leaf ds')"
    by (rule lastElementOf_shape)
  show ?case
  proof (cases k)
    case (Pre i cls e)
    obtain e' fw where fd: "frameworkOrDetect cfg (lastElementOf (map Leaf ds)) e = (e', fw)"
      by (cases "frameworkOrDetect cfg (lastElementOf (map Leaf ds)) e")
    have "map shape (ds @ [Pre i cls e']) = map shape (ds' @ [Pre i cls e'])"
      using Cons.prems by simp
    from Cons.IH[OF this] fd le Pre show ?thesis by simp
  next
    case (Elem i tag tx)
    have "map shape (ds @ [k]) = map shape (ds' @ [k])" using Cons.prems by simp
    from Cons.IH[OF this] Elem show ?thesis by simp
  next
    case (NonElement i)
    have "map shape (ds @ [k]) = map shape (ds' @ [k])" using Cons.prems by simp
    from Cons.IH[OF this] NonElement show ?thesis by simp
  next
    case (Switcher i bs)
    have "map shape (ds @ [k]) = map shape (ds' @ [k])" using Cons.prems by simp
    from Cons.IH[OF this] Switcher show ?thesis by simp
  qed
qed

lemma detectFramework_keeps:
  "detectFramework cfg prev e = (e', fw) \<Longrightarrow>
     textContent e' = textContent e \<and> classList e' = classList e
     \<and> ds_markerStripped e' = ds_markerStripped e"
  by (auto simp: detectFramework_def split: option.splits if_splits)

lemma detectFramework_idem:
  assumes "detectFramework cfg prev e = (e', fw)"
  shows "detectFramework cfg prev e' = (e', fw)"
proof (cases "truthy (ds_framework e)")
  case True
  with assms show ?thesis by (auto simp: detectFramework_def)
next
  case False
  show ?thesis
  proof (cases fw)
    case None
    with assms have "e' = e" by (auto simp: detectFramework_def split: option.splits if_splits)
    with assms show ?thesis by simp
  next
    case (Some f)
    with assms False have e': "e' = e\<lparr>ds_framework := Some f\<rparr>"
      by (auto simp: detectFramework_def split: option.splits)
    show ?thesis
    proof (cases "f = []")
      case True
      with assms False Some e' show ?thesis
        by (auto simp: detectFramework_def split: option.splits)
    next
      case f: False
      with e' Some show ?thesis by (simp add: detectFramework_def)
    qed
  qed
qed

lemma frameworkOrDetect_keeps:
  "frameworkOrDetect cfg prev e = (e', fw) \<Longrightarrow>
     textContent e' = textContent e \<and> classList e' = classList e
     \<and> ds_markerStripped e' = ds_markerStripped e"
  by (auto simp: frameworkOrDetect_def dest: detectFramework_keeps split: if_splits)

lemma frameworkOrDetect_idem:
  assumes "frameworkOrDetect cfg prev e = (e', fw)"
  shows "frameworkOrDetect cfg prev e' = (e', fw)"
proof (cases "truthy (ds_framework e)")
  case True
  with assms show ?thesis by (auto simp: frameworkOrDetect_def)
next
  case False
  with assms have d: "detectFramework cfg prev e = (e', fw)" by (simp add: frameworkOrDetect_def)
  from detectFramework_idem[OF d] have d': "detectFramework cfg prev e' = (e', fw)" .
  show ?thesis
  proof (cases "truthy (ds_framework e')")
    case True
    with d' have "fw = ds_framework e'" by (auto simp: detectFramework_def)
    with True show ?thesis by (simp add: frameworkOrDetect_def)
  next
    case False
    with d' show ?thesis by (simp add: frameworkOrDetect_def)
  qed
qed

lemma frameworkOrDetect_cached:
  "frameworkOrDetect cfg prev e = (e', fw) \<Longrightarrow>
     (fw \<noteq> None \<longrightarrow> ds_framework e' = fw) \<and> (truthy (ds_framework e') \<longrightarrow> fw = ds_framework e')"
proof -
  assume a: "frameworkOrDetect cfg prev e = (e', fw)"
  show ?thesis
  proof (cases "truthy (ds_framework e)")
    case True
    with a show ?thesis by (cases "ds_framework e") (auto simp: frameworkOrDetect_def)
  next
    case False
    with a have d: "detectFramework cfg prev e = (e', fw)" by (simp add: frameworkOrDetect_def)
    show ?thesis
    proof (cases fw)
      case None
      with d have "e' = e" by (rule_tac detectFramework_None_same) simp
      with False None show ?thesis by simp
    next
      case (Some f)
      with d detectFramework_result_cached have "ds_framework e' = Some f" by blast
      with Some show ?thesis by simp
    qed
  qed
qed

lemma shape_Pre: "shape (Pre i cls e) = (True, ''PRE'', textContent e)"
  by (simp add: shape_def)

lemma annotate_Pre:
  assumes "frameworkOrDetect cfg (lastElementOf (map Leaf ds)) e = (e', fw)"
  shows "annotate cfg ds (Pre i cls e # rest) = (Pre i cls e', fw) # annotate cfg (ds @ [Pre i cls' e']) rest"
proof -
  have "map shape (ds @ [Pre i cls e']) = map shape (ds @ [Pre i cls' e'])"
    by (simp add: shape_Pre)
  from annotate_shape[OF this] assms show ?thesis by simp
qed

lemma annotate_other:
  "\<not> isPre k \<Longrightarrow> annotate cfg ds (k # rest) = (k, None) # annotate cfg (ds @ [k]) rest"
  by (cases k) auto

lemma visibilityPass_annotate:
  "visibilityPass cfg cur ds rest vis =
     (ds @ map (visLeaf cur) (annotate cfg ds rest),
      if list_ex (\<lambda>(l, fw). isPre l \<and> truthy fw \<and> the fw = cur) (annotate cfg ds rest)
      then Some cur else vis)"
proof (induction rest arbitrary: ds vis)
  case Nil
  then show ?case by simp
next
  case (Cons k rest)
  show ?case
  proof (cases k)
    case (Pre i cls e)
    obtain e' fw where fd: "frameworkOrDetect cfg (lastElementOf (map Leaf ds)) e = (e', fw)"
      by (cases "frameworkOrDetect cfg (lastElementOf (map Leaf ds)) e")
    note an = annotate_Pre[OF fd, of i cls]
    show ?thesis
    proof (cases "truthy fw")
      case True
      then obtain f where f: "fw = Some f" "f \<noteq> []" by (cases fw) auto
      show ?thesis
      proof (cases "f = cur")
        case True
        with f Pre fd Cons.IH[of "ds @ [Pre i (classRemove ''fw-hidden'' cls) e']" fw]
          an[of rest "classRemove ''fw-hidden'' cls"]
        show ?thesis by simp
      next
        case False
        with f Pre fd Cons.IH[of "ds @ [Pre i (classAdd ''fw-hidden'' cls) e']" vis]
          an[of rest "classAdd ''fw-hidden'' cls"]
        show ?thesis by simp
      qed
    next
      case False
      with Pre fd Cons.IH[of "ds @ [Pre i cls e']" vis] an[of rest cls]
      show ?thesis by simp
    qed
  next
    case (Elem i tag tx)
    with Cons.IH[of "ds @ [k]" vis] show ?thesis by simp
  next
    case (NonElement i)
    with Cons.IH[of "ds @ [k]" vis] show ?thesis by simp
  next
    case (Switcher i bs)
    with Cons.IH[of "ds @ [k]" vis] show ?thesis by simp
  qed
qed

lemma collectFrameworks_annotate:
  "collectFrameworks cfg ds rest fws =
     (ds @ map fst (annotate cfg ds rest),
      fws \<union> {f. f \<noteq> [] \<and> Some f \<in> snd ` set (annotate cfg ds rest)})"
proof (induction rest arbitrary: ds fws)
  case Nil
  then show ?case by simp
next
  case (Cons k rest)
  show ?case
  proof (cases k)
    case (Pre i cls e)
    obtain e' fw where fd: "frameworkOrDetect cfg (lastElementOf (map Leaf ds)) e = (e', fw)"
      by (cases "frameworkOrDetect cfg (lastElementOf (map Leaf ds)) e")
    note an = annotate_Pre[OF fd, of i cls rest cls]
    show ?thesis
    proof (cases "truthy fw")
      case True
      then obtain f where f: "fw = Some f" "f \<noteq> []" by (cases fw) auto
      with Pre fd an Cons.IH[of "ds @ [Pre i cls e']" "insert f fws"]
      show ?thesis by auto
    next
      case False
      then have "\<And>f. f \<noteq> [] \<Longrightarrow> fw \<noteq> Some f" by (cases fw) auto
      with False Pre fd an Cons.IH[of "ds @ [Pre i cls e']" fws]
      show ?thesis by auto
    qed
  next
    case (Elem i tag tx)
    with Cons.IH[of "ds @ [k]" fws] show ?thesis by auto
  next
    case (NonElement i)
    with Cons.IH[of "ds @ [k]" fws] show ?thesis by auto
  next
    case (Switcher i bs)
    with Cons.IH[of "ds @ [k]" fws] show ?thesis by auto
  qed
qed

lemma showPass_annotate:
  "showPass cfg first ds rest = ds @ map (showLeaf first) (annotate cfg ds rest)"
proof (induction rest arbitrary: ds)
  case Nil
  then show ?case by simp
next
  case (Cons k rest)
  show ?case
  proof (cases k)
    case (Pre i cls e)
    obtain e' fw where fd: "frameworkOrDetect cfg (lastElementOf (map Leaf ds)) e = (e', fw)"
      by (cases "frameworkOrDetect cfg (lastElementOf (map Leaf ds)) e")
    note an = annotate_Pre[OF fd, of i cls]
    show ?thesis
    proof (cases "fw = Some first")
      case True
      with Pre fd Cons.IH[of "ds @ [Pre i (classRemove ''fw-hidden'' cls) e']"]
        an[of rest "classRemove ''fw-hidden'' cls"]
      show ?thesis by simp
    next
      case False
      with Pre fd Cons.IH[of "ds @ [Pre i cls e']"] an[of rest cls]
      show ?thesis by simp
    qed
  next
    case (Elem i tag tx)
    with Cons.IH[of "ds @ [k]"] show ?thesis by simp
  next
    case (NonElement i)
    with Cons.IH[of "ds @ [k]"] show ?thesis by simp
  next
    case (Switcher i bs)
    with Cons.IH[of "ds @ [k]"] show ?thesis by simp
  qed
qed


lemma annotate_again:
  assumes g: "\<And>i cls e fw. \<exists>cls'. g (Pre i cls e, fw) = Pre i cls' e"
    and g': "\<And>l fw. \<not> isPre l \<Longrightarrow> g (l, fw) = l"
  shows "map shape ds' = map shape ds \<Longrightarrow>
     annotate cfg ds' (map g (annotate cfg ds rest))
       = map (\<lambda>(l, fw). (g (l, fw), fw)) (annotate cfg ds rest)"
proof (induction rest arbitrary: ds ds')
  case Nil
  then show ?case by simp
next
  case (Cons k rest)
  show ?case
  proof (cases "isPre k")
    case False
    then have gk: "g (k, None) = k" by (rule g')
    have sh: "map shape (ds' @ [k]) = map shape (ds @ [k])" using Cons.prems by simp
    from Cons.IH[OF sh] False gk show ?thesis
      by (simp add: annotate_other)
  next
    case True
    then obtain i cls e where k: "k = Pre i cls e" by (cases k) auto
    obtain e' fw where fd: "frameworkOrDetect cfg (lastElementOf (map Leaf ds)) e = (e', fw)"
      by (cases "frameworkOrDetect cfg (lastElementOf (map Leaf ds)) e")
    from g obtain cls' where gp: "g (Pre i cls e', fw) = Pre i cls' e'" by blast
    have le: "lastElementOf (map Leaf ds') = lastElementOf (map Leaf ds)"
      using Cons.prems by (rule lastElementOf_shape)
    from frameworkOrDetect_idem[OF fd] le
    have fd': "frameworkOrDetect cfg (lastElementOf (map Leaf ds')) e' = (e', fw)" by simp
    have sh: "map shape (ds' @ [Pre i cls' e']) = map shape (ds @ [Pre i cls e'])"
      using Cons.prems by (simp add: shape_Pre)
    have a1: "annotate cfg ds (k # rest) = (Pre i cls e', fw) # annotate cfg (ds @ [Pre i cls e']) rest"
      unfolding k by (rule annotate_Pre[OF fd])
    have a2: "annotate cfg ds' (Pre i cls' e' # map g (annotate cfg (ds @ [Pre i cls e']) rest))
        = (Pre i cls' e', fw) # annotate cfg (ds' @ [Pre i cls' e']) (map g (annotate cfg (ds @ [Pre i cls e']) rest))"
      by (rule annotate_Pre[OF fd'])
    from Cons.IH[OF sh] a1 a2 gp show ?thesis by simp
  qed
qed

lemma visLeaf_ok:
  "\<exists>cls'. visLeaf cur (Pre i cls e, fw) = Pre i cls' e" "\<not> isPre l \<Longrightarrow> visLeaf cur (l, fw) = l"
  by (auto, cases l, auto)

lemma annotate_isPre_fst:
  "(l, fw) \<in> set (annotate cfg ds rest) \<Longrightarrow> \<not> isPre l \<Longrightarrow> fw = None"
proof (induction rest arbitrary: ds)
  case Nil
  then show ?case by simp
next
  case (Cons k rest)
  show ?case
  proof (cases k)
    case (Pre i cls e)
    obtain e' fw' where fd: "frameworkOrDetect cfg (lastElementOf (map Leaf ds)) e = (e', fw')"
      by (cases "frameworkOrDetect cfg (lastElementOf (map Leaf ds)) e")
    have "(l, fw) \<in> set ((Pre i cls e', fw') # annotate cfg (ds @ [Pre i cls e']) rest)"
      using Cons.prems(1) unfolding Pre annotate_Pre[OF fd, of i cls rest cls] .
    with Cons.prems(2) Cons.IH[of "ds @ [Pre i cls e']"] show ?thesis by auto
  next
    case (Elem i tag tx)
    with Cons.prems Cons.IH[of "ds @ [k]"] show ?thesis by auto
  next
    case (NonElement i)
    with Cons.prems Cons.IH[of "ds @ [k]"] show ?thesis by auto
  next
    case (Switcher i bs)
    with Cons.prems Cons.IH[of "ds @ [k]"] show ?thesis by auto
  qed
qed

lemma annotate_cached:
  "(Pre i cls e, fw) \<in> set (annotate cfg ds rest) \<Longrightarrow>
     (fw \<noteq> None \<longrightarrow> ds_framework e = fw) \<and> (truthy (ds_framework e) \<longrightarrow> fw = ds_framework e)"
proof (induction rest arbitrary: ds)
  case Nil
  then show ?case by simp
next
  case (Cons k rest)
  show ?case
  proof (cases k)
    case (Pre j cls0 e0)
    obtain e' fw' where fd: "frameworkOrDetect cfg (lastElementOf (map Leaf ds)) e0 = (e', fw')"
      by (cases "frameworkOrDetect cfg (lastElementOf (map Leaf ds)) e0")
    have "(Pre i cls e, fw) \<in> set ((Pre j cls0 e', fw') # annotate cfg (ds @ [Pre j cls0 e']) rest)"
      using Cons.prems(1) unfolding Pre annotate_Pre[OF fd, of j cls0 rest cls0] .
    then have "(Pre i cls e, fw) = (Pre j cls0 e', fw') \<or> (Pre i cls e, fw) \<in> set (annotate cfg (ds @ [Pre j cls0 e']) rest)"
      by (simp only: list.set insert_iff)
    then show ?thesis
    proof
      assume "(Pre i cls e, fw) = (Pre j cls0 e', fw')"
      then have "e = e'" "fw = fw'" by (simp_all only: prod.inject leaf.inject)
      with frameworkOrDetect_cached[OF fd] show ?thesis by (simp only:)
    next
      assume "(Pre i cls e, fw) \<in> set (annotate cfg (ds @ [Pre j cls0 e']) rest)"
      then show ?thesis by (rule Cons.IH)
    qed
  next
    case (Elem j tag tx)
    have "(Pre i cls e, fw) \<in> set (annotate cfg (ds @ [k]) rest)"
      using Cons.prems unfolding Elem by simp
    then show ?thesis by (rule Cons.IH)
  next
    case (NonElement j)
    have "(Pre i cls e, fw) \<in> set (annotate cfg (ds @ [k]) rest)"
      using Cons.prems unfolding NonElement by simp
    then show ?thesis by (rule Cons.IH)
  next
    case (Switcher j bs)
    have "(Pre i cls e, fw) \<in> set (annotate cfg (ds @ [k]) rest)"
      using Cons.prems unfolding Switcher by simp
    then show ?thesis by (rule Cons.IH)
  qed
qed

lemma groupFrameworks_set:
  "Some f \<in> set (groupFrameworks cfg ks) \<longleftrightarrow> Some f \<in> snd ` set (annotate cfg [] ks)"
proof
  define A where "A = annotate cfg [] ks"
  define B where "B = filter (\<lambda>(l, fw). isPre l) A"
  assume "Some f \<in> set (groupFrameworks cfg ks)"
  then have "Some f \<in> snd ` set B"
    unfolding groupFrameworks_def B_def A_def by simp
  then have "\<exists>x\<in>set B. Some f = snd x" unfolding image_iff .
  then obtain x where x: "x \<in> set B" "Some f = snd x" by blast
  from x(1) have "x \<in> set A" unfolding B_def by simp
  with x(2) have "\<exists>x\<in>set A. Some f = snd x" by blast
  then show "Some f \<in> snd ` set (annotate cfg [] ks)" unfolding image_iff A_def .
next
  define A where "A = annotate cfg [] ks"
  define B where "B = filter (\<lambda>(l, fw). isPre l) A"
  assume "Some f \<in> snd ` set (annotate cfg [] ks)"
  then have "\<exists>x\<in>set A. Some f = snd x" unfolding image_iff A_def .
  then obtain x where x: "x \<in> set A" "Some f = snd x" by blast
  obtain l fw where lf: "x = (l, fw)" by (cases x)
  with x have l: "(l, Some f) \<in> set (annotate cfg [] ks)" unfolding A_def by simp
  from annotate_isPre_fst[OF l] have "isPre l" by blast
  with x(1) lf have "x \<in> set B" unfolding B_def by simp
  with x(2) have "\<exists>x\<in>set B. Some f = snd x" by blast
  then have "Some f \<in> snd ` set B" unfolding image_iff .
  then show "Some f \<in> set (groupFrameworks cfg ks)"
    unfolding groupFrameworks_def B_def A_def by simp
qed

lemma annotate_vis_again:
  "annotate cfg [] (map (visLeaf cur) (annotate cfg [] ks))
     = map (\<lambda>(l, fw). (visLeaf cur (l, fw), fw)) (annotate cfg [] ks)"
  by (rule annotate_again[where g = "visLeaf cur" and ds = "[]" and ds' = "[]"])
     (simp_all add: visLeaf_ok)

lemma in_groupFrameworks:
  "Some f \<in> set (groupFrameworks cfg ks) \<longleftrightarrow> (\<exists>l. isPre l \<and> (l, Some f) \<in> set (annotate cfg [] ks))"
proof
  assume "Some f \<in> set (groupFrameworks cfg ks)"
  then have "Some f \<in> snd ` set (annotate cfg [] ks)" by (simp only: groupFrameworks_set)
  then have "\<exists>x\<in>set (annotate cfg [] ks). Some f = snd x" unfolding image_iff .
  then obtain x where x: "x \<in> set (annotate cfg [] ks)" "Some f = snd x" by blast
  obtain l fw where lf: "x = (l, fw)" by (cases x)
  with x have l: "(l, Some f) \<in> set (annotate cfg [] ks)" by simp
  from annotate_isPre_fst[OF l] have "isPre l" by blast
  with l show "\<exists>l. isPre l \<and> (l, Some f) \<in> set (annotate cfg [] ks)" by blast
next
  assume "\<exists>l. isPre l \<and> (l, Some f) \<in> set (annotate cfg [] ks)"
  then obtain l where l: "(l, Some f) \<in> set (annotate cfg [] ks)" by blast
  then have "\<exists>x\<in>set (annotate cfg [] ks). Some f = snd x" by force
  then have "Some f \<in> snd ` set (annotate cfg [] ks)" unfolding image_iff .
  then show "Some f \<in> set (groupFrameworks cfg ks)" by (simp only: groupFrameworks_set)
qed

lemma current_shown_iff:
  "list_ex (\<lambda>(l, fw). isPre l \<and> truthy fw \<and> the fw = cur) (annotate cfg [] ks)
      \<longleftrightarrow> (cur \<noteq> [] \<and> Some cur \<in> set (groupFrameworks cfg ks))"
proof
  assume "list_ex (\<lambda>(l, fw). isPre l \<and> truthy fw \<and> the fw = cur) (annotate cfg [] ks)"
  then obtain x where x: "x \<in> set (annotate cfg [] ks)"
      "(\<lambda>(l, fw). isPre l \<and> truthy fw \<and> the fw = cur) x"
    unfolding list_ex_iff by blast
  obtain l fw where lf: "x = (l, fw)" by (cases x)
  with x have m: "(l, fw) \<in> set (annotate cfg [] ks)" "isPre l" "truthy fw" "the fw = cur" by simp_all
  from m(3,4) have f: "fw = Some cur" "cur \<noteq> []" by (cases fw; simp)+
  from m(1,2) f(1) have "\<exists>l. isPre l \<and> (l, Some cur) \<in> set (annotate cfg [] ks)" by blast
  then show "cur \<noteq> [] \<and> Some cur \<in> set (groupFrameworks cfg ks)"
    using f(2) by (simp only: in_groupFrameworks) simp
next
  assume a: "cur \<noteq> [] \<and> Some cur \<in> set (groupFrameworks cfg ks)"
  then have "\<exists>l. isPre l \<and> (l, Some cur) \<in> set (annotate cfg [] ks)" by (simp only: in_groupFrameworks)
  then obtain l where l: "isPre l" "(l, Some cur) \<in> set (annotate cfg [] ks)" by blast
  with a have "(\<lambda>(l, fw). isPre l \<and> truthy fw \<and> the fw = cur) (l, Some cur)" by simp
  with l(2) have "\<exists>x \<in> set (annotate cfg [] ks). (\<lambda>(l, fw). isPre l \<and> truthy fw \<and> the fw = cur) x"
    by (rule_tac bexI)
  then show "list_ex (\<lambda>(l, fw). isPre l \<and> truthy fw \<and> the fw = cur) (annotate cfg [] ks)"
    unfolding list_ex_iff .
qed

lemma getAvailableFrameworks_after_vis:
  "getAvailableFrameworks cfg (map (visLeaf cur) (annotate cfg [] ks))
     = (map (visLeaf cur) (annotate cfg [] ks), availableIn cfg ks)"
proof -
  define A where "A = annotate cfg [] ks"
  define ks1 where "ks1 = map (visLeaf cur) A"
  have again: "annotate cfg [] ks1 = map (\<lambda>(l, fw). (visLeaf cur (l, fw), fw)) A"
    unfolding ks1_def A_def by (rule annotate_vis_again)
  have "map fst (map (\<lambda>(l, fw). (visLeaf cur (l, fw), fw)) A) = ks1"
    unfolding ks1_def by (simp add: o_def split_def)
  then have fst_again: "map fst (annotate cfg [] ks1) = ks1"
    by (simp only: again)
  have "snd ` set (map (\<lambda>(l, fw). (visLeaf cur (l, fw), fw)) A) = snd ` set A"
    by (simp add: image_image split_def)
  then have snd_again: "snd ` set (annotate cfg [] ks1) = snd ` set A"
    by (simp only: again)
  have c: "collectFrameworks cfg [] ks1 {} = (ks1, {f. f \<noteq> [] \<and> Some f \<in> snd ` set A})"
    using collectFrameworks_annotate[of cfg "[]" ks1 "{}"] fst_again snd_again by simp
  have "filter (\<lambda>fw. fw \<in> {f. f \<noteq> [] \<and> Some f \<in> snd ` set A}) (frameworks cfg) = availableIn cfg ks"
    unfolding availableIn_def A_def by (rule filter_cong[OF refl]) (simp add: groupFrameworks_set)
  with c have "getAvailableFrameworks cfg ks1 = (ks1, availableIn cfg ks)"
    by (simp add: getAvailableFrameworks_def)
  then show ?thesis unfolding ks1_def A_def .
qed

lemma showPass_after_vis:
  "showPass cfg first [] (map (visLeaf cur) (annotate cfg [] ks))
     = map (\<lambda>(l, fw). showLeaf first (visLeaf cur (l, fw), fw)) (annotate cfg [] ks)"
  using showPass_annotate[of cfg first "[]" "map (visLeaf cur) (annotate cfg [] ks)"]
  unfolding annotate_vis_again by (simp add: o_def split_def)

text \<open>updateGroupVisibility as one map over the annotated children.\<close>

lemma updateGroupVisibility_current:
  assumes "cur \<noteq> [] \<and> Some cur \<in> set (groupFrameworks cfg ks)"
  shows "updateGroupVisibility cfg cur ks = map (visLeaf cur) (annotate cfg [] ks)"
proof -
  from assms have "list_ex (\<lambda>(l, fw). isPre l \<and> truthy fw \<and> the fw = cur) (annotate cfg [] ks)"
    by (rule iffD2[OF current_shown_iff])
  then have "visibilityPass cfg cur [] ks None = (map (visLeaf cur) (annotate cfg [] ks), Some cur)"
    using visibilityPass_annotate[of cfg cur "[]" ks None] by simp
  with assms show ?thesis by (simp add: updateGroupVisibility_def)
qed

lemma updateGroupVisibility_fallback:
  assumes nc: "\<not> (cur \<noteq> [] \<and> Some cur \<in> set (groupFrameworks cfg ks))"
    and av: "availableIn cfg ks \<noteq> []"
  shows "updateGroupVisibility cfg cur ks
     = map (\<lambda>(l, fw). showLeaf (hd (availableIn cfg ks)) (visLeaf cur (l, fw), fw)) (annotate cfg [] ks)"
proof -
  have "\<not> list_ex (\<lambda>(l, fw). isPre l \<and> truthy fw \<and> the fw = cur) (annotate cfg [] ks)"
    unfolding current_shown_iff by (rule nc)
  then have v: "visibilityPass cfg cur [] ks None = (map (visLeaf cur) (annotate cfg [] ks), None)"
    using visibilityPass_annotate[of cfg cur "[]" ks None] by simp
  from av obtain f where "f \<in> set (availableIn cfg ks)" by (cases "availableIn cfg ks") auto
  then have "Some f \<in> set (groupFrameworks cfg ks)" by (simp add: availableIn_def)
  then have "groupFrameworks cfg ks \<noteq> []" by auto
  then have "filter (\<lambda>(l, fw). isPre l) (annotate cfg [] ks) \<noteq> []"
    by (simp add: groupFrameworks_def)
  then obtain x where x: "x \<in> set (annotate cfg [] ks)" "isPre (fst x)"
    by (auto simp: filter_empty_conv)
  have pre: "filter isPre ks \<noteq> []"
  proof -
    have "\<And>ds. map fst (annotate cfg ds ks) = map fst (annotate cfg ds ks)" by simp
    have m: "\<And>ds. map (isPre \<circ> fst) (annotate cfg ds ks) = map isPre ks"
    proof (induction ks)
      case Nil
      then show ?case by simp
    next
      case (Cons k ks)
      show ?case
      proof (cases k)
        case (Pre i cls e)
        obtain e' fw where fd: "frameworkOrDetect cfg (lastElementOf (map Leaf ds)) e = (e', fw)"
          by (cases "frameworkOrDetect cfg (lastElementOf (map Leaf ds)) e")
        show ?thesis unfolding Pre annotate_Pre[OF fd, of i cls ks cls] using Cons.IH by simp
      next
        case (Elem i tag tx)
        then show ?thesis using Cons.IH by simp
      next
        case (NonElement i)
        then show ?thesis using Cons.IH by simp
      next
        case (Switcher i bs)
        then show ?thesis using Cons.IH by simp
      qed
    qed
    from x have "True \<in> set (map (isPre \<circ> fst) (annotate cfg [] ks))" by force
    then have "True \<in> set (map isPre ks)" by (simp only: m)
    then show ?thesis by (auto simp: filter_empty_conv)
  qed
  from v pre av nc show ?thesis
    by (simp add: updateGroupVisibility_def getAvailableFrameworks_after_vis showPass_after_vis)
qed

lemma hidden_classAdd: "''fw-hidden'' \<in> set (classAdd ''fw-hidden'' cls)"
  by (simp add: classAdd_def)

lemma hidden_classRemove: "''fw-hidden'' \<notin> set (classRemove ''fw-hidden'' cls)"
  by (simp add: classRemove_def)

lemma blocksOf_set: "b \<in> set (blocksOf ks) \<longleftrightarrow> (\<exists>i. Pre i (fst b) (snd b) \<in> set ks)"
proof (induction ks)
  case Nil
  then show ?case by (simp add: blocksOf_def)
next
  case (Cons k ks)
  have c: "blocksOf (k # ks) = (case blockOf k of None \<Rightarrow> blocksOf ks | Some y \<Rightarrow> y # blocksOf ks)"
    unfolding blocksOf_def by simp
  show ?case
  proof (cases k)
    case (Pre j cls e)
    with c have "blocksOf (k # ks) = (cls, e) # blocksOf ks" by simp
    with Cons Pre show ?thesis by (cases b) auto
  next
    case (Elem j tag tx)
    with c Cons show ?thesis by simp
  next
    case (NonElement j)
    with c Cons show ?thesis by simp
  next
    case (Switcher j bs)
    with c Cons show ?thesis by simp
  qed
qed

lemma availableIn_mem:
  "f \<in> set (availableIn cfg ks) \<longleftrightarrow>
     f \<in> set (frameworks cfg) \<and> f \<noteq> [] \<and> Some f \<in> set (groupFrameworks cfg ks)"
  by (simp add: availableIn_def)

lemma shownFramework_props:
  assumes "\<exists>f \<in> set (frameworks cfg). f \<noteq> [] \<and> Some f \<in> set (groupFrameworks cfg ks)"
  shows "shownFramework cfg cur ks \<noteq> [] \<and> Some (shownFramework cfg cur ks) \<in> set (groupFrameworks cfg ks)
    \<and> availableIn cfg ks \<noteq> []"
proof -
  from assms obtain f where "f \<in> set (availableIn cfg ks)" unfolding availableIn_mem by blast
  then have ne: "availableIn cfg ks \<noteq> []" by auto
  then have "hd (availableIn cfg ks) \<in> set (availableIn cfg ks)" by simp
  then have h: "hd (availableIn cfg ks) \<noteq> [] \<and> Some (hd (availableIn cfg ks)) \<in> set (groupFrameworks cfg ks)"
    unfolding availableIn_mem by blast
  show ?thesis
  proof (cases "cur \<noteq> [] \<and> Some cur \<in> set (groupFrameworks cfg ks)")
    case True
    have "shownFramework cfg cur ks = cur"
      unfolding shownFramework_def by (rule if_P[OF True])
    with True ne show ?thesis by simp
  next
    case False
    have "shownFramework cfg cur ks = hd (availableIn cfg ks)"
      unfolding shownFramework_def by (rule if_not_P[OF False])
    with h ne show ?thesis by simp
  qed
qed

lemma updateGroupVisibility_final:
  assumes "availableIn cfg ks \<noteq> []"
  shows "updateGroupVisibility cfg cur ks = map (finalLeaf cfg cur ks) (annotate cfg [] ks)"
proof (cases "cur \<noteq> [] \<and> Some cur \<in> set (groupFrameworks cfg ks)")
  case True
  have "\<And>x. finalLeaf cfg cur ks x = visLeaf cur x"
    unfolding finalLeaf_def by (simp only: if_P[OF True])
  then have "finalLeaf cfg cur ks = visLeaf cur" by (rule ext)
  with updateGroupVisibility_current[OF True] show ?thesis by simp
next
  case False
  have "\<And>x. finalLeaf cfg cur ks x = (\<lambda>(l, fw). showLeaf (hd (availableIn cfg ks)) (visLeaf cur (l, fw), fw)) x"
    unfolding finalLeaf_def by (simp only: if_not_P[OF False] split_def prod.collapse)
  then have "finalLeaf cfg cur ks = (\<lambda>(l, fw). showLeaf (hd (availableIn cfg ks)) (visLeaf cur (l, fw), fw))"
    by (rule ext)
  with updateGroupVisibility_fallback[OF False assms] show ?thesis by simp
qed

lemma finalLeaf_other: "\<not> isPre l \<Longrightarrow> finalLeaf cfg cur ks (l, fw) = l"
  by (cases l) (auto simp: finalLeaf_def)

lemma finalLeaf_Pre:
  assumes mem: "(Pre i cls e, fw) \<in> set (annotate cfg [] ks)"
    and sh: "shownFramework cfg cur ks \<noteq> []"
  shows "\<exists>cls'. finalLeaf cfg cur ks (Pre i cls e, fw) = Pre i cls' e
     \<and> (fw = Some (shownFramework cfg cur ks) \<longrightarrow> ''fw-hidden'' \<notin> set cls')
     \<and> (truthy fw \<and> fw \<noteq> Some (shownFramework cfg cur ks) \<longrightarrow> ''fw-hidden'' \<in> set cls')"
proof (cases "cur \<noteq> [] \<and> Some cur \<in> set (groupFrameworks cfg ks)")
  case True
  have s: "shownFramework cfg cur ks = cur"
    unfolding shownFramework_def by (rule if_P[OF True])
  have f: "finalLeaf cfg cur ks (Pre i cls e, fw) = visLeaf cur (Pre i cls e, fw)"
    unfolding finalLeaf_def by (simp only: if_P[OF True])
  show ?thesis
  proof (cases "truthy fw")
    case nt: False
    with True have "fw \<noteq> Some cur" by (cases fw) auto
    with nt f s show ?thesis by simp
  next
    case t: True
    then obtain g where g: "fw = Some g" "g \<noteq> []" by (cases fw) auto
    show ?thesis
    proof (cases "g = cur")
      case True
      with g f s show ?thesis by (simp add: hidden_classRemove)
    next
      case False
      with g f s show ?thesis by (simp add: hidden_classAdd)
    qed
  qed
next
  case False
  have s: "shownFramework cfg cur ks = hd (availableIn cfg ks)"
    unfolding shownFramework_def by (rule if_not_P[OF False])
  have f: "finalLeaf cfg cur ks (Pre i cls e, fw)
      = showLeaf (hd (availableIn cfg ks)) (visLeaf cur (Pre i cls e, fw), fw)"
    unfolding finalLeaf_def by (simp only: if_not_P[OF False] snd_conv)
  show ?thesis
  proof (cases "truthy fw")
    case nt: False
    with sh s have "fw \<noteq> Some (hd (availableIn cfg ks))" by (cases fw) auto
    with nt f s show ?thesis by simp
  next
    case t: True
    then obtain g where g: "fw = Some g" "g \<noteq> []" by (cases fw) auto
    have "g \<noteq> cur"
    proof
      assume "g = cur"
      with g mem have "isPre (Pre i cls e) \<and> (Pre i cls e, Some cur) \<in> set (annotate cfg [] ks)" by simp
      then have "\<exists>l. isPre l \<and> (l, Some cur) \<in> set (annotate cfg [] ks)" by blast
      then have "Some cur \<in> set (groupFrameworks cfg ks)" by (simp only: in_groupFrameworks)
      with \<open>g = cur\<close> g False show False by simp
    qed
    with g f s show ?thesis by (simp add: hidden_classRemove hidden_classAdd)
  qed
qed

lemma final_block:
  assumes sh: "shownFramework cfg cur ks \<noteq> []"
    and b: "b \<in> set (blocksOf (map (finalLeaf cfg cur ks) (annotate cfg [] ks)))"
  shows "\<exists>i cls fw. (Pre i cls (snd b), fw) \<in> set (annotate cfg [] ks)
     \<and> (fw = Some (shownFramework cfg cur ks) \<longrightarrow> \<not> hidden b)
     \<and> (truthy fw \<and> fw \<noteq> Some (shownFramework cfg cur ks) \<longrightarrow> hidden b)"
proof -
  from b obtain i where "Pre i (fst b) (snd b) \<in> set (map (finalLeaf cfg cur ks) (annotate cfg [] ks))"
    unfolding blocksOf_set by blast
  then obtain x where x: "x \<in> set (annotate cfg [] ks)" "finalLeaf cfg cur ks x = Pre i (fst b) (snd b)"
    by auto
  obtain l fw where lf: "x = (l, fw)" by (cases x)
  have "isPre l"
  proof (rule ccontr)
    assume "\<not> isPre l"
    from finalLeaf_other[OF this, of cfg cur ks fw] x(2) lf \<open>\<not> isPre l\<close> show False by simp
  qed
  then obtain j cls e where l: "l = Pre j cls e" by (cases l) auto
  with x(1) lf have mem: "(Pre j cls e, fw) \<in> set (annotate cfg [] ks)" by simp
  from finalLeaf_Pre[OF mem sh] obtain cls' where
    f: "finalLeaf cfg cur ks (Pre j cls e, fw) = Pre j cls' e"
    and h1: "fw = Some (shownFramework cfg cur ks) \<longrightarrow> ''fw-hidden'' \<notin> set cls'"
    and h2: "truthy fw \<and> fw \<noteq> Some (shownFramework cfg cur ks) \<longrightarrow> ''fw-hidden'' \<in> set cls'"
    by blast
  from f x(2) lf l have eq: "fst b = cls'" "snd b = e" by simp_all
  from mem eq have m': "(Pre j cls (snd b), fw) \<in> set (annotate cfg [] ks)" by simp
  from h1 h2 eq have "(fw = Some (shownFramework cfg cur ks) \<longrightarrow> \<not> hidden b)
     \<and> (truthy fw \<and> fw \<noteq> Some (shownFramework cfg cur ks) \<longrightarrow> hidden b)"
    by (simp add: hidden_def)
  with m' show ?thesis by blast
qed

text \<open>
  Claim C8, as stated, fails: the fallback shows the blocks of the first framework of
  \<^verbatim>\<open>CONFIG.frameworks\<close> that the group has. A group whose blocks carry
  \<^verbatim>\<open>data-framework="vue"\<close>, which is not configured, has a detected framework but no
  available one; with the current framework hono every block is hidden.
\<close>

theorem C8_counterexample:
  "list_ex truthy (groupFrameworks demoConfig vueGroup)
   \<and> blocksOf (updateGroupVisibility demoConfig ''hono'' vueGroup) \<noteq> []
   \<and> list_all hidden (blocksOf (updateGroupVisibility demoConfig ''hono'' vueGroup))"
  by code_simp

text \<open>
  Claim C8, amended: after \<^verbatim>\<open>updateGroupVisibility\<close> has run on a group in which at
  least one code block has a detected framework that is a (non-empty) member of
  \<^verbatim>\<open>CONFIG.frameworks\<close>, at least one code block of the group is visible. The
  framework shown is the current one when a block of the group has it, else the first
  framework, in the order of \<^verbatim>\<open>CONFIG.frameworks\<close>, that a block of the group has:
  every block of the shown framework is without \<^verbatim>\<open>fw-hidden\<close>, there is such a
  block, and every block with another framework carries \<^verbatim>\<open>fw-hidden\<close>. (A block's
  framework is read from its dataset after the call, where the loop has cached it.)
\<close>

theorem updateGroupVisibility_shows_a_block:
  assumes "\<exists>f \<in> set (frameworks cfg). f \<noteq> [] \<and> Some f \<in> set (groupFrameworks cfg ks)"
  shows "(\<exists>b \<in> set (blocksOf (updateGroupVisibility cfg cur ks)).
            \<not> hidden b \<and> ds_framework (snd b) = Some (shownFramework cfg cur ks))
    \<and> (\<forall>b \<in> set (blocksOf (updateGroupVisibility cfg cur ks)).
            ds_framework (snd b) = Some (shownFramework cfg cur ks) \<longrightarrow> \<not> hidden b)
    \<and> (\<forall>b \<in> set (blocksOf (updateGroupVisibility cfg cur ks)).
            truthy (ds_framework (snd b)) \<and> ds_framework (snd b) \<noteq> Some (shownFramework cfg cur ks)
            \<longrightarrow> hidden b)
    \<and> shownFramework cfg cur ks =
        (if cur \<noteq> [] \<and> Some cur \<in> set (groupFrameworks cfg ks) then cur
         else hd (filter (\<lambda>fw. fw \<noteq> [] \<and> Some fw \<in> set (groupFrameworks cfg ks)) (frameworks cfg)))"
proof -
  define shown where "shown = shownFramework cfg cur ks"
  define R where "R = blocksOf (updateGroupVisibility cfg cur ks)"
  from shownFramework_props[OF assms, of cur]
  have sh: "shown \<noteq> []" and inG: "Some shown \<in> set (groupFrameworks cfg ks)"
    and av: "availableIn cfg ks \<noteq> []"
    unfolding shown_def by blast+
  have R: "R = blocksOf (map (finalLeaf cfg cur ks) (annotate cfg [] ks))"
    unfolding R_def updateGroupVisibility_final[OF av] ..
  have each: "\<exists>i cls fw. (Pre i cls (snd b), fw) \<in> set (annotate cfg [] ks)
     \<and> (fw = Some shown \<longrightarrow> \<not> hidden b) \<and> (truthy fw \<and> fw \<noteq> Some shown \<longrightarrow> hidden b)"
    if "b \<in> set R" for b
  proof -
    from that have b': "b \<in> set (blocksOf (map (finalLeaf cfg cur ks) (annotate cfg [] ks)))"
      unfolding R .
    from sh have sh': "shownFramework cfg cur ks \<noteq> []" unfolding shown_def .
    from final_block[OF sh' b'] show ?thesis unfolding shown_def .
  qed
  have c2: "\<forall>b \<in> set R. ds_framework (snd b) = Some shown \<longrightarrow> \<not> hidden b"
  proof (intro ballI impI)
    fix b assume b: "b \<in> set R" and d: "ds_framework (snd b) = Some shown"
    from each[OF b] obtain i cls fw where m: "(Pre i cls (snd b), fw) \<in> set (annotate cfg [] ks)"
      and h: "fw = Some shown \<longrightarrow> \<not> hidden b" by blast
    have "truthy (Some shown)" using sh by simp
    then have t: "truthy (ds_framework (snd b))" unfolding d .
    from annotate_cached[OF m] t have "fw = ds_framework (snd b)" by blast
    then have "fw = Some shown" unfolding d .
    with h show "\<not> hidden b" by blast
  qed
  have c3: "\<forall>b \<in> set R. truthy (ds_framework (snd b)) \<and> ds_framework (snd b) \<noteq> Some shown \<longrightarrow> hidden b"
  proof (intro ballI impI)
    fix b assume b: "b \<in> set R"
      and d: "truthy (ds_framework (snd b)) \<and> ds_framework (snd b) \<noteq> Some shown"
    from each[OF b] obtain i cls fw where m: "(Pre i cls (snd b), fw) \<in> set (annotate cfg [] ks)"
      and h: "truthy fw \<and> fw \<noteq> Some shown \<longrightarrow> hidden b" by blast
    from annotate_cached[OF m] d have fw: "fw = ds_framework (snd b)" by blast
    from d have "truthy fw \<and> fw \<noteq> Some shown" unfolding fw .
    with h show "hidden b" by blast
  qed
  have c1: "\<exists>b \<in> set R. \<not> hidden b \<and> ds_framework (snd b) = Some shown"
  proof -
    from inG obtain l where l: "isPre l" "(l, Some shown) \<in> set (annotate cfg [] ks)"
      unfolding in_groupFrameworks by blast
    then obtain i cls e where p: "l = Pre i cls e" by (cases l) auto
    with l have mem: "(Pre i cls e, Some shown) \<in> set (annotate cfg [] ks)" by simp
    from annotate_cached[OF mem] have d: "ds_framework e = Some shown" by blast
    from finalLeaf_Pre[OF mem] sh obtain cls' where
      f: "finalLeaf cfg cur ks (Pre i cls e, Some shown) = Pre i cls' e"
      unfolding shown_def by blast
    from mem have "finalLeaf cfg cur ks (Pre i cls e, Some shown) \<in> set (map (finalLeaf cfg cur ks) (annotate cfg [] ks))"
      unfolding set_map by (rule imageI)
    with f have "Pre i (fst (cls', e)) (snd (cls', e)) \<in> set (map (finalLeaf cfg cur ks) (annotate cfg [] ks))"
      by simp
    then have "\<exists>i. Pre i (fst (cls', e)) (snd (cls', e)) \<in> set (map (finalLeaf cfg cur ks) (annotate cfg [] ks))"
      by blast
    then have inR: "(cls', e) \<in> set R" unfolding R blocksOf_set .
    have d': "ds_framework (snd (cls', e)) = Some shown" unfolding snd_conv by (rule d)
    from c2 inR d' have "\<not> hidden (cls', e)" by blast
    with inR d' show ?thesis by blast
  qed
  have c4: "shown =
        (if cur \<noteq> [] \<and> Some cur \<in> set (groupFrameworks cfg ks) then cur
         else hd (filter (\<lambda>fw. fw \<noteq> [] \<and> Some fw \<in> set (groupFrameworks cfg ks)) (frameworks cfg)))"
    unfolding shown_def shownFramework_def availableIn_def ..
  from c1 c2 c3 c4 show ?thesis unfolding shown_def R_def by blast
qed

theorem updateGroupVisibility_shows_a_block_witness:
  "list_ex (\<lambda>f. f \<noteq> [] \<and> Some f \<in> set (groupFrameworks demoConfig demoGroup)) (frameworks demoConfig)
   \<and> shownFramework demoConfig ''koa'' demoGroup = ''hono''
   \<and> map (\<lambda>b. (ds_framework (snd b), hidden b)) (blocksOf (updateGroupVisibility demoConfig ''koa'' demoGroup))
       = [(Some ''hono'', False), (Some ''express'', True)]
   \<and> (\<exists>b \<in> set (blocksOf (updateGroupVisibility demoConfig ''koa'' demoGroup)).
         \<not> hidden b \<and> ds_framework (snd b) = Some ''hono'')"
proof -
  have h: "list_ex (\<lambda>f. f \<noteq> [] \<and> Some f \<in> set (groupFrameworks demoConfig demoGroup)) (frameworks demoConfig)"
    by code_simp
  then have h': "\<exists>f \<in> set (frameworks demoConfig). f \<noteq> [] \<and> Some f \<in> set (groupFrameworks demoConfig demoGroup)"
    unfolding list_ex_iff .
  have s: "shownFramework demoConfig ''koa'' demoGroup = ''hono''" by code_simp
  have m: "map (\<lambda>b. (ds_framework (snd b), hidden b)) (blocksOf (updateGroupVisibility demoConfig ''koa'' demoGroup))
       = [(Some ''hono'', False), (Some ''express'', True)]" by code_simp
  from updateGroupVisibility_shows_a_block[OF h', of "''koa''"]
  have "\<exists>b \<in> set (blocksOf (updateGroupVisibility demoConfig ''koa'' demoGroup)).
         \<not> hidden b \<and> ds_framework (snd b) = Some (shownFramework demoConfig ''koa'' demoGroup)"
    by blast
  then have e: "\<exists>b \<in> set (blocksOf (updateGroupVisibility demoConfig ''koa'' demoGroup)).
         \<not> hidden b \<and> ds_framework (snd b) = Some ''hono''"
    unfolding s .
  from h s m e show ?thesis by blast
qed

section \<open>Properties of the stored selection\<close>

lemma initHook_frame: "k \<noteq> storageKey cfg \<Longrightarrow> localStorage (initHook cfg s) k = localStorage s k"
  by (simp add: initHook_def)

lemma setFramework_frame: "k \<noteq> storageKey cfg \<Longrightarrow> localStorage (setFramework cfg f s) k = localStorage s k"
  by (simp add: setFramework_def)

lemma step_frame: "k \<noteq> storageKey cfg \<Longrightarrow> localStorage (step cfg s ev) k = localStorage s k"
  by (cases ev) (simp_all add: initHook_frame setFramework_frame)

lemma foldl_step_frame:
  "k \<noteq> storageKey cfg \<Longrightarrow> localStorage (foldl (step cfg) s evs) k = localStorage s k"
  by (induction evs arbitrary: s) (simp_all add: step_frame)

text \<open>
  Claim C3, as stated, fails in its last part: the init hook validates what was read
  from the storage. With \<^verbatim>\<open>"vue"\<close> stored under the key and hono, express and koa
  configured, the selection after start-up is the default framework, not the stored
  value.
\<close>

theorem C3_counterexample:
  "vueStorage (storageKey demoConfig) = Some ''vue''
   \<and> currentFramework (runPlugin demoConfig vueStorage [Init]) \<noteq> ''vue''"
  by (simp add: runPlugin_def loadScript_def initHook_def vueStorage_def demoConfig_def)

text \<open>
  Claim C3, amended: \<^verbatim>\<open>setFramework(f)\<close>, for \<open>f\<close> different from the current
  selection, writes \<open>f\<close> under \<^verbatim>\<open>CONFIG.storageKey\<close>, makes it the selection and
  then updates the visibility of every group and every switcher; no event of the plugin
  (init hook, page rendered, click on a button), and so no run of events, changes the
  storage at any other key; loading the script takes the stored value, if it is not
  empty, as the selection, and after the init hook the selection is the stored value
  when that is one of \<^verbatim>\<open>CONFIG.frameworks\<close>, otherwise
  \<^verbatim>\<open>CONFIG.defaultFramework\<close>, which the hook then writes under the key.
\<close>

theorem setFramework_storage:
  "(currentFramework s \<noteq> f \<longrightarrow>
       localStorage (setFramework cfg f s) = (localStorage s)(storageKey cfg \<mapsto> f)
     \<and> currentFramework (setFramework cfg f s) = f
     \<and> document (setFramework cfg f s)
         = updateAllSwitchers cfg f (map (onGroups (updateGroupVisibility cfg f)) (document s)))
   \<and> (\<forall>k. k \<noteq> storageKey cfg \<longrightarrow> localStorage (step cfg s ev) k = localStorage s k)
   \<and> (\<forall>k. k \<noteq> storageKey cfg \<longrightarrow> localStorage (runPlugin cfg storage evs) k = storage k)
   \<and> currentFramework (loadScript cfg storage doc)
       = (if truthy (storage (storageKey cfg)) then the (storage (storageKey cfg))
          else defaultFramework cfg)
   \<and> currentFramework (initHook cfg (loadScript cfg storage doc))
       = (if truthy (storage (storageKey cfg)) \<and> the (storage (storageKey cfg)) \<in> set (frameworks cfg)
          then the (storage (storageKey cfg)) else defaultFramework cfg)
   \<and> (currentFramework (loadScript cfg storage doc) \<notin> set (frameworks cfg) \<longrightarrow>
        localStorage (initHook cfg (loadScript cfg storage doc)) (storageKey cfg)
          = Some (defaultFramework cfg))"
proof (intro conjI allI impI)
  assume "currentFramework s \<noteq> f"
  then show "localStorage (setFramework cfg f s) = (localStorage s)(storageKey cfg \<mapsto> f)"
    "currentFramework (setFramework cfg f s) = f"
    "document (setFramework cfg f s)
         = updateAllSwitchers cfg f (map (onGroups (updateGroupVisibility cfg f)) (document s))"
    by (simp_all add: setFramework_def updateAllGroups_def)
next
  fix k assume "k \<noteq> storageKey cfg"
  then show "localStorage (step cfg s ev) k = localStorage s k" by (rule step_frame)
next
  fix k assume "k \<noteq> storageKey cfg"
  then show "localStorage (runPlugin cfg storage evs) k = storage k"
    by (simp add: runPlugin_def foldl_step_frame loadScript_def)
next
  show "currentFramework (loadScript cfg storage doc)
       = (if truthy (storage (storageKey cfg)) then the (storage (storageKey cfg))
          else defaultFramework cfg)"
    by (simp add: loadScript_def)
next
  show "currentFramework (initHook cfg (loadScript cfg storage doc))
       = (if truthy (storage (storageKey cfg)) \<and> the (storage (storageKey cfg)) \<in> set (frameworks cfg)
          then the (storage (storageKey cfg)) else defaultFramework cfg)"
    by (simp add: loadScript_def initHook_def)
next
  assume "currentFramework (loadScript cfg storage doc) \<notin> set (frameworks cfg)"
  then show "localStorage (initHook cfg (loadScript cfg storage doc)) (storageKey cfg)
          = Some (defaultFramework cfg)"
    by (simp add: initHook_def)
qed

theorem setFramework_storage_witness:
  "currentFramework (runPlugin demoConfig expressStorage [Init]) = ''express''
   \<and> currentFramework (runPlugin demoConfig expressStorage [Init]) \<noteq> ''koa''
   \<and> localStorage (setFramework demoConfig ''koa'' (runPlugin demoConfig expressStorage [Init]))
       = expressStorage(''docsify-fw'' \<mapsto> ''koa'')
   \<and> ''theme'' \<noteq> storageKey demoConfig
   \<and> localStorage (runPlugin demoConfig expressStorage [Init, Click ''koa'', Click ''hono'']) ''theme''
       = Some ''dark''
   \<and> currentFramework (loadScript demoConfig vueStorage []) \<notin> set (frameworks demoConfig)
   \<and> localStorage (initHook demoConfig (loadScript demoConfig vueStorage [])) (storageKey demoConfig)
       = Some ''hono''"
proof -
  let ?s = "runPlugin demoConfig expressStorage [Init]"
  have a: "currentFramework ?s = ''express''"
    by (simp add: runPlugin_def loadScript_def initHook_def expressStorage_def demoConfig_def)
  then have b: "currentFramework ?s \<noteq> ''koa''" by simp
  have ls: "localStorage ?s = expressStorage"
    by (simp add: runPlugin_def loadScript_def initHook_def expressStorage_def demoConfig_def)
  have k: "''theme'' \<noteq> storageKey demoConfig" by (simp add: demoConfig_def)
  have v: "currentFramework (loadScript demoConfig vueStorage []) \<notin> set (frameworks demoConfig)"
    by (simp add: loadScript_def vueStorage_def demoConfig_def)
  note t = setFramework_storage[of ?s "''koa''" demoConfig Init vueStorage "[]" "[]"]
  from t b have c: "localStorage (setFramework demoConfig ''koa'' ?s) = (localStorage ?s)(storageKey demoConfig \<mapsto> ''koa'')"
    by blast
  then have c': "localStorage (setFramework demoConfig ''koa'' ?s) = expressStorage(''docsify-fw'' \<mapsto> ''koa'')"
    unfolding ls by (simp add: demoConfig_def)
  from t v have d: "localStorage (initHook demoConfig (loadScript demoConfig vueStorage [])) (storageKey demoConfig)
       = Some (defaultFramework demoConfig)" by blast
  then have d': "localStorage (initHook demoConfig (loadScript demoConfig vueStorage [])) (storageKey demoConfig)
       = Some ''hono''" by (simp add: demoConfig_def)
  from setFramework_storage[of ?s "''koa''" demoConfig Init expressStorage "[Init, Click ''koa'', Click ''hono'']" "[]"] k
  have "localStorage (runPlugin demoConfig expressStorage [Init, Click ''koa'', Click ''hono'']) ''theme''
       = expressStorage ''theme''" by blast
  then have e: "localStorage (runPlugin demoConfig expressStorage [Init, Click ''koa'', Click ''hono'']) ''theme''
       = Some ''dark''" by (simp add: expressStorage_def)
  from a b c' k e v d' show ?thesis by blast
qed

section \<open>Properties of processing a page\<close>





















lemma foundIn_Nil [simp]: "foundIn [] = {}" by (simp add: foundIn_def)












lemma sameNode_hidden:
  "sameNode l l' \<Longrightarrow> blockOf l' = Some b' \<Longrightarrow> \<exists>b. blockOf l = Some b \<and> fst b = fst b'"
  by (cases l; cases l') auto


lemma all2_set:
  "list_all2 R xs ys \<Longrightarrow> (\<And>x y. R x y \<Longrightarrow> P x \<Longrightarrow> Q y) \<Longrightarrow> \<forall>x\<in>set xs. P x \<Longrightarrow> \<forall>y\<in>set ys. Q y"
  by (induction rule: list_all2_induct) auto











































section \<open>Properties of marker comments\<close>





lemma acceptedName_iff:
  "acceptedName cfg pat line = Some fw \<longleftrightarrow>
     (\<exists>p g. pat = Some p \<and> p line = Some g \<and> fw = normalizeFrameworkName g \<and> fw \<in> set (frameworks cfg))"
  by (auto simp: acceptedName_def Let_def split: option.splits)



lemma lineHit_member: "lineHit cfg line = Some fw \<Longrightarrow> fw \<in> set (frameworks cfg)"
  by (auto simp: lineHit_def acceptedName_iff split: option.splits)






lemma updateLeaf_id [simp]: "leafId (updateLeaf i f l) = leafId l"
  by (cases l) auto

lemma updateLeaf_isPre [simp]: "isPre (updateLeaf i f l) = isPre l"
  by (cases l) auto

lemma updateLeaf_hit: "isPre l \<Longrightarrow> leafId l = i \<Longrightarrow> leafFramework (updateLeaf i f l) = ds_framework (f (the (codeOf i l)))"
  by (cases l) auto










lemma groupedLeaves_append: "groupedLeaves (xs @ ys) = groupedLeaves xs @ groupedLeaves ys"
  by (simp add: groupedLeaves_def)

lemma topLeaves_append: "topLeaves (xs @ ys) = topLeaves xs @ topLeaves ys"
  by (simp add: topLeaves_def)

















section \<open>Properties of the table of contents\<close>

lemma kids_append [simp]: "kids (appendChildAt [] new t) = kids t @ [new]"
  by (cases t) auto

lemma appendChildAt_Cons: "appendChildAt (i # p) new t = (case t of UL ks \<Rightarrow> UL (appendChildIn i p new ks) | LI a ks \<Rightarrow> LI a (appendChildIn i p new ks))"
  by (cases t) auto

lemma kids_appendChildAt_Cons [simp]: "kids (appendChildAt (i # p) new t) = appendChildIn i p new (kids t)"
  by (cases t) auto

lemma tocLinks_kids: "tocLinks t = (case t of UL ks \<Rightarrow> [] | LI a ks \<Rightarrow> [a]) @ tocLinksOf (kids t)"
  by (cases t) auto

lemma tocLinksOf_append [simp]: "tocLinksOf (ks @ ks') = tocLinksOf ks @ tocLinksOf ks'"
  by (induction ks) auto




































lemma find_append_case:
  "find P (xs @ ys) = (case find P xs of Some y \<Rightarrow> Some y | None \<Rightarrow> find P ys)"
  by (induction xs) auto

lemma find_rev_last:
  "find P (rev xs) = (if filter P xs = [] then None else Some (last (filter P xs)))"
  by (induction xs) (auto simp: find_append_case split: option.splits)

lemma activeHeading_spec:
  assumes "hs \<noteq> []"
  shows "activeHeading hs =
     Some (if filter (\<lambda>h. h_top h \<le> 100) hs \<noteq> [] then last (filter (\<lambda>h. h_top h \<le> 100) hs) else hd hs)"
proof -
  from assms obtain h t where "hs = h # t" by (cases hs) auto
  then have "(case hs of [] \<Rightarrow> None | h # _ \<Rightarrow> Some h) = Some (hd hs)" by simp
  then show ?thesis unfolding activeHeading_def find_rev_last by simp
qed


lemma findIndex_first: "findIndex P xs = Some i \<Longrightarrow> j < i \<Longrightarrow> \<not> P (xs ! j)"
proof (induction xs arbitrary: i j)
  case Nil
  then show ?case by simp
next
  case (Cons x xs)
  show ?case
  proof (cases "P x")
    case True
    with Cons.prems show ?thesis by simp
  next
    case False
    with Cons.prems obtain i' where i': "findIndex P xs = Some i'" "i = Suc i'" by auto
    show ?thesis
    proof (cases j)
      case 0
      with False show ?thesis by simp
    next
      case (Suc j')
      with Cons.prems(2) i'(2) have "j' < i'" by simp
      from Cons.IH[OF i'(1) this] Suc show ?thesis by simp
    qed
  qed
qed


lemma findIndex_None: "\<forall>x\<in>set xs. \<not> P x \<Longrightarrow> findIndex P xs = None"
  by (induction xs) auto













text \<open>
  Claim C7, as stated, fails for \<^verbatim>\<open>createOnThisPageSidebar\<close>: the function removes
  an existing \<^verbatim>\<open>.on-this-page\<close> element before it looks at the headings, so on a
  page without headings that still shows the sidebar of the page before, the document
  is modified.
\<close>

theorem C7_counterexample:
  "headings stalePage = []
   \<and> createOnThisPageSidebar demoEngine ''/'' usageLocation stalePage \<noteq> stalePage"
  by (simp add: createOnThisPageSidebar_def stalePage_def Let_def)

text \<open>
  Claim C7, amended: when expected elements are absent each utility returns early, with
  no error. \<^verbatim>\<open>createOnThisPageSidebar\<close> on a content without headings creates no
  sidebar and changes nothing but the removal of a sidebar that was already there;
  \<^verbatim>\<open>removeNestedFromLeftSidebar\<close> leaves the document as it is when
  \<^verbatim>\<open>aside.sidebar\<close> or its \<^verbatim>\<open>.sidebar-nav\<close> is missing; and
  \<^verbatim>\<open>setupScrollSpy\<close> leaves the document as it is (no handler registered, no
  class touched) when no link of the table of contents resolves to an element, which
  is so when there is no sidebar or every lookup by id fails.
\<close>

theorem early_returns:
  "(headings pg = [] \<longrightarrow>
      createOnThisPageSidebar qs route loc pg = pg\<lparr>on_this_page := None\<rparr>)
   \<and> (left_sidebar pg = None \<longrightarrow> removeNestedFromLeftSidebar pg = pg)
   \<and> (left_sidebar pg = Some a \<and> sidebar_nav a = None \<longrightarrow> removeNestedFromLeftSidebar pg = pg)
   \<and> (resolveHeadings pg = [] \<longrightarrow> setupScrollSpy qs pg = pg)
   \<and> ((on_this_page pg = None
        \<or> (\<exists>sb. on_this_page pg = Some sb
              \<and> list_all (\<lambda>l. getElementById (headings pg) (l_heading_id l) = None) (tocLinks (sb_nav sb))))
       \<longrightarrow> resolveHeadings pg = [])"
proof (intro conjI impI)
  assume "headings pg = []"
  then show "createOnThisPageSidebar qs route loc pg = pg\<lparr>on_this_page := None\<rparr>"
    by (simp add: createOnThisPageSidebar_def Let_def)
next
  assume "left_sidebar pg = None"
  then show "removeNestedFromLeftSidebar pg = pg"
    by (simp add: removeNestedFromLeftSidebar_def)
next
  assume "left_sidebar pg = Some a \<and> sidebar_nav a = None"
  then show "removeNestedFromLeftSidebar pg = pg"
    by (simp add: removeNestedFromLeftSidebar_def)
next
  assume "resolveHeadings pg = []"
  then show "setupScrollSpy qs pg = pg"
    by (simp add: setupScrollSpy_def)
next
  assume a: "on_this_page pg = None
        \<or> (\<exists>sb. on_this_page pg = Some sb
              \<and> list_all (\<lambda>l. getElementById (headings pg) (l_heading_id l) = None) (tocLinks (sb_nav sb)))"
  have "\<And>ls. list_all (\<lambda>l. getElementById (headings pg) (l_heading_id l) = None) ls \<Longrightarrow>
     List.map_filter (\<lambda>l. getElementById (headings pg) (l_heading_id l)) ls = []"
    by (simp add: List.map_filter_def filter_empty_conv list_all_iff)
  with a show "resolveHeadings pg = []"
    by (auto simp: resolveHeadings_def sidebarLinks_def List.map_filter_def)
qed

theorem early_returns_witness:
  "headings stalePage = []
   \<and> createOnThisPageSidebar demoEngine ''/'' usageLocation stalePage = stalePage\<lparr>on_this_page := None\<rparr>
   \<and> left_sidebar stalePage = None
   \<and> removeNestedFromLeftSidebar stalePage = stalePage
   \<and> left_sidebar noNavPage = Some \<lparr> sidebar_nav = None \<rparr>
   \<and> removeNestedFromLeftSidebar noNavPage = noNavPage
   \<and> resolveHeadings stalePage = []
   \<and> setupScrollSpy demoEngine stalePage = stalePage"
proof -
  have h1: "headings stalePage = []" by (simp add: stalePage_def)
  have h2: "left_sidebar stalePage = None" by (simp add: stalePage_def)
  have h3: "left_sidebar noNavPage = Some \<lparr> sidebar_nav = None \<rparr>
     \<and> sidebar_nav \<lparr> sidebar_nav = None \<rparr> = None" by (simp add: noNavPage_def)
  have h4: "resolveHeadings stalePage = []"
    by (simp add: resolveHeadings_def sidebarLinks_def stalePage_def List.map_filter_def)
  from early_returns[of stalePage demoEngine "''/''" usageLocation "\<lparr> sidebar_nav = None \<rparr>"] h1 h2 h4
  have a: "createOnThisPageSidebar demoEngine ''/'' usageLocation stalePage = stalePage\<lparr>on_this_page := None\<rparr>"
    "removeNestedFromLeftSidebar stalePage = stalePage" "setupScrollSpy demoEngine stalePage = stalePage"
    by blast+
  from early_returns[of noNavPage demoEngine "''/''" usageLocation "\<lparr> sidebar_nav = None \<rparr>"] h3
  have b: "removeNestedFromLeftSidebar noNavPage = noNavPage" by blast
  from h1 h2 h3 h4 a b show ?thesis by blast
qed

text \<open>
  Claim C2 on the headings h2 "Install", h3 "With npm", h2 "Usage": the claim asks for
  the depths 0, 1, 0 below the top-level list. The script puts the first h2 into a list
  nested once (the loop that goes deeper starts from level 0), puts the h3 into that
  same list (from level 2 to level 3 the loop body never runs), and puts the second h2
  into the top-level list.
\<close>

theorem C2_nesting_at_h2_h3_h2:
  "navDepths (nav (snd (tocLoop ''/guide'' [] h2h3h2 initialTocState)))
     = [(''Install'', 1), (''With npm'', 1), (''Usage'', 0)]"
  by code_simp























end
